theory Spec2Isabelle
  imports Main "HOL-Library.Word" "HOL-Library.Sublist"
begin

unbundle bit_operations_syntax

section \<open>JavaScript values used by the detector\<close>

text \<open>
  A \<open>Uint8Array\<close> (and Node's \<open>Buffer\<close>) is a list of 8-bit words. JavaScript numbers
  that count bytes or hold positions are integers; they stay far below \<open>2 ^ 53\<close> for
  every array a runtime can hold, so no rounding is modelled. A string is its list of
  UTF-16 code units.
\<close>

type_synonym byte = "8 word"
type_synonym jsstring = "nat list"

text \<open>The errors the code can throw: \<open>EndOfStreamError\<close> is the repository's own class,
  \<open>RangeError\<close> and \<open>TypeError\<close> are the platform's, \<open>PlainError\<close> is a
  \<open>new Error(message)\<close>.\<close>

datatype error = EndOfStreamError | RangeError | TypeError | PlainError

text \<open>An \<open>async\<close> function returns a promise. \<open>Pending\<close> is a promise that never
  settles (a loop that does not end).\<close>

datatype 'a promise = Fulfilled 'a | Rejected error | Pending

text \<open>\<open>xs[i]\<close>: \<open>undefined\<close> outside the array.\<close>

definition js_index :: "'a list \<Rightarrow> nat \<Rightarrow> 'a option" where
  "js_index xs i = (if i < length xs then Some (xs ! i) else None)"

text \<open>\<open>a & b\<close> on array elements: \<open>undefined\<close> converts to 0.\<close>

definition js_bitand :: "byte option \<Rightarrow> byte option \<Rightarrow> byte" where
  "js_bitand a b = (case a of None \<Rightarrow> 0 | Some x \<Rightarrow> (case b of None \<Rightarrow> 0 | Some y \<Rightarrow> x AND y))"

text \<open>\<open>Buffer.alloc(n)\<close>: zero-filled.\<close>

definition alloc :: "nat \<Rightarrow> byte list" where
  "alloc n = replicate n 0"

text \<open>\<open>TypedArray.prototype.subarray(begin, end)\<close>: negative indices count from the end,
  both are clamped to the array.\<close>

definition clamp_index :: "int \<Rightarrow> int \<Rightarrow> nat" where
  "clamp_index n i = (if i < 0 then nat (max (n + i) 0) else nat (min i n))"

definition subarray :: "byte list \<Rightarrow> int \<Rightarrow> int \<Rightarrow> byte list" where
  "subarray xs b e =
     (let n = int (length xs); b' = clamp_index n b; e' = clamp_index n e
      in take (e' - b') (drop b' xs))"

text \<open>\<open>target.set(source, offset)\<close>: throws a \<open>RangeError\<close> (here \<open>None\<close>) when the source
  does not fit.\<close>

definition set_bytes :: "byte list \<Rightarrow> byte list \<Rightarrow> nat \<Rightarrow> byte list option" where
  "set_bytes target source off =
     (if off + length source > length target then None
      else Some (take off target @ source @ drop (off + length source) target))"

definition stringToBytes :: "string \<Rightarrow> byte list" where
  "stringToBytes s = map (\<lambda>character. of_nat (of_char character)) s"

section \<open>The sync-safe token\<close>

text \<open>
  \<open>uint32SyncSafeToken.get\<close>: JavaScript's \<open>&\<close>, \<open>|\<close> and \<open><<\<close> work on 32-bit signed
  integers; an element outside the buffer is \<open>undefined\<close> and converts to 0.
\<close>

definition to_int32 :: "byte option \<Rightarrow> 32 word" where
  "to_int32 b = (case b of None \<Rightarrow> 0 | Some x \<Rightarrow> ucast x)"

definition uint32SyncSafeToken_get :: "byte list \<Rightarrow> nat \<Rightarrow> int" where
  "uint32SyncSafeToken_get buffer off =
     sint ((to_int32 (js_index buffer (off + 3)) AND 0x7F)
        OR push_bit 7 (to_int32 (js_index buffer (off + 2)))
        OR push_bit 14 (to_int32 (js_index buffer (off + 1)))
        OR push_bit 21 (to_int32 (js_index buffer off)))"

text \<open>The value the documentation describes: four groups of seven payload bits, most
  significant byte first, bit 7 of every byte ignored.\<close>

definition syncSafe_payload :: "byte \<Rightarrow> byte \<Rightarrow> byte \<Rightarrow> byte \<Rightarrow> int" where
  "syncSafe_payload b0 b1 b2 b3 =
     uint (b0 AND 0x7F) * 2 ^ 21 + uint (b1 AND 0x7F) * 2 ^ 14
       + uint (b2 AND 0x7F) * 2 ^ 7 + uint (b3 AND 0x7F)"

section \<open>The probe primitive\<close>

text \<open>
  \<open>_check(buffer, headers, options)\<close> with \<open>options = {offset: 0, ...options}\<close>. The loop
  over \<open>headers.entries()\<close> is \<open>check_from\<close>, started at index 0. Without a mask a header
  byte is compared (\<open>!==\<close>) with \<open>buffer[index + offset]\<close>, which is \<open>undefined\<close> outside
  the buffer; with a mask it is compared with \<open>mask[index] & buffer[index + offset]\<close>.
\<close>

fun check_from :: "nat \<Rightarrow> byte list \<Rightarrow> byte list \<Rightarrow> nat \<Rightarrow> byte list option \<Rightarrow> bool" where
  "check_from index buffer [] off mask_opt = True"
| "check_from index buffer (header # rest) off mask_opt =
     (case mask_opt of
        Some m \<Rightarrow>
          if header \<noteq> js_bitand (js_index m index) (js_index buffer (index + off)) then False
          else check_from (Suc index) buffer rest off mask_opt
      | None \<Rightarrow>
          if Some header \<noteq> js_index buffer (index + off) then False
          else check_from (Suc index) buffer rest off mask_opt)"

definition underscore_check :: "byte list \<Rightarrow> byte list \<Rightarrow> nat \<Rightarrow> byte list option \<Rightarrow> bool" where
  "underscore_check buffer headers off mask_opt = check_from 0 buffer headers off mask_opt"

text \<open>What one compared position requires.\<close>

definition position_matches :: "byte list \<Rightarrow> byte list \<Rightarrow> nat \<Rightarrow> byte list option \<Rightarrow> nat \<Rightarrow> bool" where
  "position_matches buffer headers off mask_opt i =
     (case mask_opt of
        Some m \<Rightarrow> headers ! i = js_bitand (js_index m i) (js_index buffer (i + off))
      | None \<Rightarrow> js_index buffer (i + off) = Some (headers ! i))"

section \<open>Strings\<close>

text \<open>A string literal of the source, as code units.\<close>

definition str :: "string \<Rightarrow> jsstring" where
  "str s = map of_char s"

text \<open>\<open>WhiteSpace\<close> and \<open>LineTerminator\<close> of ECMAScript: what \<open>trim\<close> strips and
  \<open>parseInt\<close> skips; a regular expression's \<open>.\<close> matches everything but a line
  terminator.\<close>

definition lineTerminator :: "nat \<Rightarrow> bool" where
  "lineTerminator c = (c = 0x0A \<or> c = 0x0D \<or> c = 0x2028 \<or> c = 0x2029)"

definition whiteSpace :: "nat \<Rightarrow> bool" where
  "whiteSpace c =
     (c = 0x09 \<or> c = 0x0B \<or> c = 0x0C \<or> c = 0x20 \<or> c = 0xA0 \<or> c = 0x1680
      \<or> (0x2000 \<le> c \<and> c \<le> 0x200A) \<or> c = 0x202F \<or> c = 0x205F \<or> c = 0x3000
      \<or> c = 0xFEFF \<or> lineTerminator c)"

definition trim :: "jsstring \<Rightarrow> jsstring" where
  "trim s = rev (dropWhile whiteSpace (rev (dropWhile whiteSpace s)))"

definition startsWith :: "jsstring \<Rightarrow> jsstring \<Rightarrow> bool" where
  "startsWith s p = prefix p s"

definition endsWith :: "jsstring \<Rightarrow> jsstring \<Rightarrow> bool" where
  "endsWith s p = suffix p s"

text \<open>\<open>s.split('/')[0]\<close>.\<close>

definition split_slash_first :: "jsstring \<Rightarrow> jsstring" where
  "split_slash_first s = takeWhile (\<lambda>c. c \<noteq> 0x2F) s"

text \<open>\<open>s.replace('\0', ' ')\<close>: a string pattern replaces its first occurrence only.\<close>

fun replace_first_nul :: "jsstring \<Rightarrow> jsstring" where
  "replace_first_nul [] = []"
| "replace_first_nul (c # cs) = (if c = 0 then 0x20 # cs else c # replace_first_nul cs)"

text \<open>\<open>s.replace(/\0.*$/, '')\<close> (and \<open>/\00.*$/g\<close>, the same expression): the leftmost
  NUL that only characters other than line terminators follow, and everything after it,
  is removed.\<close>

fun replace_nul_to_end :: "jsstring \<Rightarrow> jsstring" where
  "replace_nul_to_end [] = []"
| "replace_nul_to_end (c # cs) =
     (if c = 0 \<and> \<not> list_ex lineTerminator cs then [] else c # replace_nul_to_end cs)"

text \<open>\<open>Number.parseInt(s, 8)\<close>: leading white space is skipped, a sign is read, then the
  longest run of octal digits; \<open>None\<close> is \<open>NaN\<close> (no digit).\<close>

definition octalDigit :: "nat \<Rightarrow> bool" where
  "octalDigit c = (0x30 \<le> c \<and> c \<le> 0x37)"

definition octal_value :: "jsstring \<Rightarrow> int" where
  "octal_value ds = foldl (\<lambda>acc c. acc * 8 + (int c - 0x30)) 0 ds"

definition parseInt8 :: "jsstring \<Rightarrow> int option" where
  "parseInt8 s =
     (let s1 = dropWhile whiteSpace s;
          negative = (case s1 of c # _ \<Rightarrow> c = 0x2D | [] \<Rightarrow> False);
          s2 = (case s1 of c # cs \<Rightarrow> if c = 0x2B \<or> c = 0x2D then cs else s1 | [] \<Rightarrow> s1);
          z = takeWhile octalDigit s2
      in if z = [] then None
         else Some (if negative then - octal_value z else octal_value z))"

subsection \<open>Decoding bytes\<close>

datatype encoding = Utf8 | Ascii | Binary

text \<open>The UTF-8 decoder of \<open>Buffer.prototype.toString\<close>: every maximal ill-formed
  subsequence becomes U+FFFD, a code point above U+FFFF a surrogate pair.\<close>

definition continuation :: "byte \<Rightarrow> bool" where
  "continuation b = (0x80 \<le> b \<and> b \<le> 0xBF)"

definition second_ok :: "byte \<Rightarrow> byte \<Rightarrow> bool" where
  "second_ok lead b =
     (if lead = 0xE0 then 0xA0 \<le> b \<and> b \<le> 0xBF
      else if lead = 0xED then 0x80 \<le> b \<and> b \<le> 0x9F
      else if lead = 0xF0 then 0x90 \<le> b \<and> b \<le> 0xBF
      else if lead = 0xF4 then 0x80 \<le> b \<and> b \<le> 0x8F
      else continuation b)"

definition code_units :: "nat \<Rightarrow> jsstring" where
  "code_units cp =
     (if cp < 0x10000 then [cp]
      else [0xD800 + (cp - 0x10000) div 0x400, 0xDC00 + (cp - 0x10000) mod 0x400])"

fun utf8_decode :: "byte list \<Rightarrow> jsstring" where
  "utf8_decode [] = []"
| "utf8_decode (b # bs) =
     (if b < 0x80 then unat b # utf8_decode bs
      else if 0xC2 \<le> b \<and> b \<le> 0xDF then
        (case bs of
           [] \<Rightarrow> [0xFFFD]
         | c # cs \<Rightarrow>
             if continuation c
             then (unat (b AND 0x1F) * 0x40 + unat (c AND 0x3F)) # utf8_decode cs
             else 0xFFFD # utf8_decode bs)
      else if 0xE0 \<le> b \<and> b \<le> 0xEF then
        (case bs of
           [] \<Rightarrow> [0xFFFD]
         | c # cs \<Rightarrow>
             if \<not> second_ok b c then 0xFFFD # utf8_decode bs
             else (case cs of
                     [] \<Rightarrow> [0xFFFD]
                   | d # ds \<Rightarrow>
                       if continuation d
                       then (unat (b AND 0x0F) * 0x1000 + unat (c AND 0x3F) * 0x40
                               + unat (d AND 0x3F)) # utf8_decode ds
                       else 0xFFFD # utf8_decode cs))
      else if 0xF0 \<le> b \<and> b \<le> 0xF4 then
        (case bs of
           [] \<Rightarrow> [0xFFFD]
         | c # cs \<Rightarrow>
             if \<not> second_ok b c then 0xFFFD # utf8_decode bs
             else (case cs of
                     [] \<Rightarrow> [0xFFFD]
                   | d # ds \<Rightarrow>
                       if \<not> continuation d then 0xFFFD # utf8_decode cs
                       else (case ds of
                               [] \<Rightarrow> [0xFFFD]
                             | e # es \<Rightarrow>
                                 if continuation e
                                 then code_units (unat (b AND 0x07) * 0x40000
                                        + unat (c AND 0x3F) * 0x1000
                                        + unat (d AND 0x3F) * 0x40 + unat (e AND 0x3F))
                                      @ utf8_decode es
                                 else 0xFFFD # utf8_decode ds)))
      else 0xFFFD # utf8_decode bs)"

text \<open>\<open>'ascii'\<close> clears bit 7 of every byte before decoding; \<open>'binary'\<close> (latin1) maps a
  byte to the code unit of the same value.\<close>

definition decode :: "encoding \<Rightarrow> byte list \<Rightarrow> jsstring" where
  "decode enc bs =
     (case enc of
        Utf8 \<Rightarrow> utf8_decode bs
      | Ascii \<Rightarrow> map (\<lambda>b. unat (b AND 0x7F)) bs
      | Binary \<Rightarrow> map unat bs)"

text \<open>\<open>buffer.toString(encoding, start, end)\<close>: the range is clamped to the buffer.\<close>

definition toString :: "byte list \<Rightarrow> encoding \<Rightarrow> nat \<Rightarrow> nat \<Rightarrow> jsstring" where
  "toString buffer enc start end' = decode enc (take (end' - start) (drop start buffer))"

section \<open>Tokens\<close>

text \<open>A token is \<open>{len, get(array, offset)}\<close>. The numeric tokens read through a
  \<open>DataView\<close>, which throws a \<open>RangeError\<close> (here \<open>None\<close>) outside the array.\<close>

datatype 'a token = Token (len: nat) (get: "byte list \<Rightarrow> nat \<Rightarrow> 'a option")

definition dv_bytes :: "byte list \<Rightarrow> nat \<Rightarrow> nat \<Rightarrow> byte list option" where
  "dv_bytes array off n =
     (if off + n \<le> length array then Some (take n (drop off array)) else None)"

text \<open>The unsigned value of a run of bytes, most significant byte first.\<close>

definition be_value :: "byte list \<Rightarrow> int" where
  "be_value bs = foldl (\<lambda>acc b. acc * 256 + uint b) 0 bs"

definition UINT8 :: "int token" where
  "UINT8 = Token 1 (\<lambda>array off. map_option be_value (dv_bytes array off 1))"

definition UINT16_LE :: "int token" where
  "UINT16_LE = Token 2 (\<lambda>array off. map_option (\<lambda>bs. be_value (rev bs)) (dv_bytes array off 2))"

definition UINT16_BE :: "int token" where
  "UINT16_BE = Token 2 (\<lambda>array off. map_option be_value (dv_bytes array off 2))"

definition UINT32_LE :: "int token" where
  "UINT32_LE = Token 4 (\<lambda>array off. map_option (\<lambda>bs. be_value (rev bs)) (dv_bytes array off 4))"

definition UINT32_BE :: "int token" where
  "UINT32_BE = Token 4 (\<lambda>array off. map_option be_value (dv_bytes array off 4))"

definition INT32_BE :: "int token" where
  "INT32_BE = Token 4 (\<lambda>array off.
     map_option (\<lambda>bs. sint (word_of_int (be_value bs) :: 32 word)) (dv_bytes array off 4))"

definition UINT64_LE :: "int token" where
  "UINT64_LE = Token 8 (\<lambda>array off. map_option (\<lambda>bs. be_value (rev bs)) (dv_bytes array off 8))"

definition StringType :: "nat \<Rightarrow> encoding \<Rightarrow> jsstring token" where
  "StringType n enc = Token n (\<lambda>array off. Some (toString array enc off (off + n)))"

definition uint32SyncSafeToken :: "int token" where
  "uint32SyncSafeToken = Token 4 (\<lambda>buffer off. Some (uint32SyncSafeToken_get buffer off))"

text \<open>Node's \<open>buf.readUInt16LE(offset)\<close>, \<open>buf.readUInt32LE(offset)\<close> and
  \<open>buf.readUIntBE(offset, byteLength)\<close>: a \<open>RangeError\<close> (\<open>None\<close>) outside the buffer, and
  for a \<open>byteLength\<close> that is not 1 to 6.\<close>

definition readUInt16LE :: "byte list \<Rightarrow> nat \<Rightarrow> int option" where
  "readUInt16LE buffer off = map_option (\<lambda>bs. be_value (rev bs)) (dv_bytes buffer off 2)"

definition readUInt32LE :: "byte list \<Rightarrow> nat \<Rightarrow> int option" where
  "readUInt32LE buffer off = map_option (\<lambda>bs. be_value (rev bs)) (dv_bytes buffer off 4)"

definition readUIntBE :: "byte list \<Rightarrow> nat \<Rightarrow> nat \<Rightarrow> int option" where
  "readUIntBE buffer off byteLength =
     (if 1 \<le> byteLength \<and> byteLength \<le> 6
      then map_option be_value (dv_bytes buffer off byteLength) else None)"

section \<open>The buffer tokenizer\<close>

text \<open>
  \<open>BufferTokenizer\<close> as \<open>fromBuffer(uint8Array)\<close> constructs it: \<open>fileInfo\<close> is not given,
  so \<open>fileInfo.size\<close> is the length of the array, and it is never assigned again.
\<close>

record tokenizer =
  uint8Array :: "byte list"
  position :: int

definition fromBuffer :: "byte list \<Rightarrow> tokenizer" where
  "fromBuffer input = \<lparr>uint8Array = input, position = 0\<rparr>"

definition fileInfo_size :: "tokenizer \<Rightarrow> int" where
  "fileInfo_size t = int (length (uint8Array t))"

text \<open>The options of a read, as the callers in this program give them (\<open>offset\<close> is
  never given), and \<open>normalizeOptions\<close>: a length or a position that is \<open>undefined\<close>
  or 0 is falsy and takes its default.\<close>

record options =
  opt_length :: "int option"
  opt_position :: "int option"
  opt_mayBeLess :: bool

record normOptions =
  mayBeLess :: bool
  norm_offset :: nat
  norm_length :: int
  norm_position :: int

definition no_options :: options where
  "no_options = \<lparr>opt_length = None, opt_position = None, opt_mayBeLess = False\<rparr>"

definition truthy :: "int option \<Rightarrow> bool" where
  "truthy v = (case v of None \<Rightarrow> False | Some n \<Rightarrow> n \<noteq> 0)"

definition normalizeOptions :: "tokenizer \<Rightarrow> byte list \<Rightarrow> options \<Rightarrow> error + normOptions" where
  "normalizeOptions t array opts =
     (if (case opt_position opts of Some p \<Rightarrow> p < position t | None \<Rightarrow> False)
      then Inl PlainError
      else Inr \<lparr>mayBeLess = opt_mayBeLess opts,
                norm_offset = 0,
                norm_length = (if truthy (opt_length opts) then the (opt_length opts)
                               else int (length array) - 0),
                norm_position = (if truthy (opt_position opts) then the (opt_position opts)
                                 else position t)\<rparr>)"

text \<open>\<open>AbstractTokenizer.ignore\<close>; it resolves to the number of bytes skipped, which no
  caller uses.\<close>

definition ignore :: "int \<Rightarrow> tokenizer \<Rightarrow> tokenizer" where
  "ignore n t =
     (let bytesLeft = fileInfo_size t - position t
      in if n > bytesLeft then t\<lparr>position := position t + bytesLeft\<rparr>
         else t\<lparr>position := position t + n\<rparr>)"

text \<open>\<open>BufferTokenizer.peekBuffer\<close>: the number of bytes copied and the target array
  after the copy.\<close>

definition peekBuffer :: "tokenizer \<Rightarrow> byte list \<Rightarrow> options \<Rightarrow> (int \<times> byte list) promise" where
  "peekBuffer t array opts =
     (case normalizeOptions t array opts of
        Inl e \<Rightarrow> Rejected e
      | Inr n \<Rightarrow>
          let bytes2read = min (int (length (uint8Array t)) - norm_position n) (norm_length n)
          in if \<not> mayBeLess n \<and> bytes2read < norm_length n then Rejected EndOfStreamError
             else (case set_bytes array
                          (subarray (uint8Array t) (norm_position n) (norm_position n + bytes2read))
                          (norm_offset n) of
                     None \<Rightarrow> Rejected RangeError
                   | Some array' \<Rightarrow> Fulfilled (bytes2read, array')))"

text \<open>\<open>BufferTokenizer.readBuffer\<close>: also the tokenizer after the read.\<close>

definition readBuffer ::
  "tokenizer \<Rightarrow> byte list \<Rightarrow> options \<Rightarrow> (int \<times> byte list \<times> tokenizer) promise" where
  "readBuffer t array opts =
     (if truthy (opt_position opts) \<and> the (opt_position opts) < position t
      then Rejected PlainError
      else
        let t1 = (if truthy (opt_position opts) then t\<lparr>position := the (opt_position opts)\<rparr>
                  else t)
        in (case peekBuffer t1 array opts of
              Fulfilled (bytesRead, array') \<Rightarrow>
                Fulfilled (bytesRead, array', t1\<lparr>position := position t1 + bytesRead\<rparr>)
            | Rejected e \<Rightarrow> Rejected e
            | Pending \<Rightarrow> Pending))"

text \<open>\<open>readToken(token, position = this.position)\<close> and \<open>peekNumber(token)\<close>.\<close>

definition readToken :: "tokenizer \<Rightarrow> 'a token \<Rightarrow> ('a \<times> tokenizer) promise" where
  "readToken t token =
     (case readBuffer t (alloc (len token)) (no_options\<lparr>opt_position := Some (position t)\<rparr>) of
        Fulfilled (n, array, t') \<Rightarrow>
          if n < int (len token) then Rejected EndOfStreamError
          else (case get token array 0 of
                  None \<Rightarrow> Rejected RangeError
                | Some v \<Rightarrow> Fulfilled (v, t'))
      | Rejected e \<Rightarrow> Rejected e
      | Pending \<Rightarrow> Pending)"

definition peekNumber :: "tokenizer \<Rightarrow> 'a token \<Rightarrow> 'a promise" where
  "peekNumber t token =
     (case peekBuffer t (alloc 8) (no_options\<lparr>opt_length := Some (int (len token))\<rparr>) of
        Fulfilled (n, numBuffer) \<Rightarrow>
          if n < int (len token) then Rejected EndOfStreamError
          else (case get token numBuffer 0 of
                  None \<Rightarrow> Rejected RangeError
                | Some v \<Rightarrow> Fulfilled v)
      | Rejected e \<Rightarrow> Rejected e
      | Pending \<Rightarrow> Pending)"

section \<open>The catalog\<close>

text \<open>The arrays \<open>extensions\<close> and \<open>mimeTypes\<close>, and the sets exported from them.\<close>

definition extensions :: "string list" where
  "extensions =
     [''jpg'', ''png'', ''apng'', ''gif'', ''webp'', ''flif'', ''xcf'', ''cr2'', ''cr3'',
      ''orf'', ''arw'', ''dng'', ''nef'', ''rw2'', ''raf'', ''tif'', ''bmp'', ''icns'',
      ''jxr'', ''psd'', ''indd'', ''zip'', ''tar'', ''rar'', ''gz'', ''bz2'', ''7z'',
      ''dmg'', ''mp4'', ''mid'', ''mkv'', ''webm'', ''mov'', ''avi'', ''mpg'', ''mp2'',
      ''mp3'', ''m4a'', ''oga'', ''ogg'', ''ogv'', ''opus'', ''flac'', ''wav'', ''spx'',
      ''amr'', ''pdf'', ''epub'', ''elf'', ''exe'', ''swf'', ''rtf'', ''wasm'', ''woff'',
      ''woff2'', ''eot'', ''ttf'', ''otf'', ''ico'', ''flv'', ''ps'', ''xz'', ''sqlite'',
      ''nes'', ''crx'', ''xpi'', ''cab'', ''deb'', ''ar'', ''rpm'', ''Z'', ''lz'',
      ''cfb'', ''mxf'', ''mts'', ''blend'', ''bpg'', ''docx'', ''pptx'', ''xlsx'',
      ''3gp'', ''3g2'', ''jp2'', ''jpm'', ''jpx'', ''mj2'', ''aif'', ''qcp'', ''odt'',
      ''ods'', ''odp'', ''xml'', ''mobi'', ''heic'', ''cur'', ''ktx'', ''ape'', ''wv'',
      ''dcm'', ''ics'', ''glb'', ''pcap'', ''dsf'', ''lnk'', ''alias'', ''voc'', ''ac3'',
      ''m4v'', ''m4p'', ''m4b'', ''f4v'', ''f4p'', ''f4b'', ''f4a'', ''mie'', ''asf'',
      ''ogm'', ''ogx'', ''mpc'', ''arrow'', ''shp'', ''aac'', ''mp1'', ''it'', ''s3m'',
      ''xm'', ''ai'', ''skp'', ''avif'', ''eps'', ''lzh'', ''pgp'', ''asar'', ''stl'',
      ''chm'', ''3mf'', ''zst'', ''jxl'', ''vcf'']"

definition mimeTypes :: "string list" where
  "mimeTypes =
     [''image/jpeg'', ''image/png'', ''image/gif'', ''image/webp'', ''image/flif'',
      ''image/x-xcf'', ''image/x-canon-cr2'', ''image/x-canon-cr3'', ''image/tiff'',
      ''image/bmp'', ''image/vnd.ms-photo'', ''image/vnd.adobe.photoshop'',
      ''application/x-indesign'', ''application/epub+zip'', ''application/x-xpinstall'',
      ''application/vnd.oasis.opendocument.text'',
      ''application/vnd.oasis.opendocument.spreadsheet'',
      ''application/vnd.oasis.opendocument.presentation'',
      ''application/vnd.openxmlformats-officedocument.wordprocessingml.document'',
      ''application/vnd.openxmlformats-officedocument.presentationml.presentation'',
      ''application/vnd.openxmlformats-officedocument.spreadsheetml.sheet'',
      ''application/zip'', ''application/x-tar'', ''application/x-rar-compressed'',
      ''application/gzip'', ''application/x-bzip2'', ''application/x-7z-compressed'',
      ''application/x-apple-diskimage'', ''application/x-apache-arrow'', ''video/mp4'',
      ''audio/midi'', ''video/x-matroska'', ''video/webm'', ''video/quicktime'',
      ''video/vnd.avi'', ''audio/vnd.wave'', ''audio/qcelp'', ''audio/x-ms-asf'',
      ''video/x-ms-asf'', ''application/vnd.ms-asf'', ''video/mpeg'', ''video/3gpp'',
      ''audio/mpeg'', ''audio/mp4'', ''audio/opus'', ''video/ogg'', ''audio/ogg'',
      ''application/ogg'', ''audio/x-flac'', ''audio/ape'', ''audio/wavpack'',
      ''audio/amr'', ''application/pdf'', ''application/x-elf'',
      ''application/x-msdownload'', ''application/x-shockwave-flash'',
      ''application/rtf'', ''application/wasm'', ''font/woff'', ''font/woff2'',
      ''application/vnd.ms-fontobject'', ''font/ttf'', ''font/otf'', ''image/x-icon'',
      ''video/x-flv'', ''application/postscript'', ''application/eps'',
      ''application/x-xz'', ''application/x-sqlite3'',
      ''application/x-nintendo-nes-rom'', ''application/x-google-chrome-extension'',
      ''application/vnd.ms-cab-compressed'', ''application/x-deb'',
      ''application/x-unix-archive'', ''application/x-rpm'', ''application/x-compress'',
      ''application/x-lzip'', ''application/x-cfb'', ''application/x-mie'',
      ''application/mxf'', ''video/mp2t'', ''application/x-blender'', ''image/bpg'',
      ''image/jp2'', ''image/jpx'', ''image/jpm'', ''image/mj2'', ''audio/aiff'',
      ''application/xml'', ''application/x-mobipocket-ebook'', ''image/heif'',
      ''image/heif-sequence'', ''image/heic'', ''image/heic-sequence'', ''image/icns'',
      ''image/ktx'', ''application/dicom'', ''audio/x-musepack'', ''text/calendar'',
      ''text/vcard'', ''model/gltf-binary'', ''application/vnd.tcpdump.pcap'',
      ''audio/x-dsf'', ''application/x.ms.shortcut'', ''application/x.apple.alias'',
      ''audio/x-voc'', ''audio/vnd.dolby.dd-raw'', ''audio/x-m4a'', ''image/apng'',
      ''image/x-olympus-orf'', ''image/x-sony-arw'', ''image/x-adobe-dng'',
      ''image/x-nikon-nef'', ''image/x-panasonic-rw2'', ''image/x-fujifilm-raf'',
      ''video/x-m4v'', ''video/3gpp2'', ''application/x-esri-shape'', ''audio/aac'',
      ''audio/x-it'', ''audio/x-s3m'', ''audio/x-xm'', ''video/MP1S'', ''video/MP2P'',
      ''application/vnd.sketchup.skp'', ''image/avif'', ''application/x-lzh-compressed'',
      ''application/pgp-encrypted'', ''application/x-asar'', ''model/stl'',
      ''application/vnd.ms-htmlhelp'', ''model/3mf'', ''image/jxl'', ''application/zstd'']"

definition supportedExtensions :: "string set" where
  "supportedExtensions = set extensions"

definition supportedMimeTypes :: "string set" where
  "supportedMimeTypes = set mimeTypes"

section \<open>The TAR checksum\<close>

text \<open>
  \<open>tarHeaderChecksumMatches(buffer, offset = 0)\<close>. The two \<open>for\<close> loops add
  \<open>buffer[i]\<close> to the sum; outside the buffer the element is \<open>undefined\<close> and the sum
  becomes \<open>NaN\<close> (here \<open>None\<close>), which equals nothing.
\<close>

definition add_element :: "int option \<Rightarrow> byte option \<Rightarrow> int option" where
  "add_element acc b =
     (case acc of None \<Rightarrow> None | Some s \<Rightarrow> (case b of None \<Rightarrow> None | Some x \<Rightarrow> Some (s + uint x)))"

function sum_loop :: "byte list \<Rightarrow> nat \<Rightarrow> nat \<Rightarrow> int option \<Rightarrow> int option" where
  "sum_loop buffer i bound acc =
     (if i < bound then sum_loop buffer (Suc i) bound (add_element acc (js_index buffer i))
      else acc)"
  by pat_completeness auto
termination
  by (relation "measure (\<lambda>(buffer, i, bound, acc). bound - i)") auto

declare sum_loop.simps [simp del]

definition tarHeaderChecksumMatches :: "byte list \<Rightarrow> nat \<Rightarrow> bool" where
  "tarHeaderChecksumMatches buffer off =
     (case parseInt8 (trim (replace_nul_to_end (toString buffer Utf8 148 154))) of
        None \<Rightarrow> False
      | Some readSum \<Rightarrow>
          Some readSum =
            sum_loop buffer (off + 156) (off + 512)
              (sum_loop buffer off (off + 148) (Some (8 * 0x20))))"

section \<open>The signature dispatcher\<close>

datatype fileType = FileType (ext: string) (mime: string)

definition minimumBytes :: nat where
  "minimumBytes = 4100"

text \<open>
  \<open>FileTypeParser.parse\<close> is a cascade of probes on the sample buffer; the first that
  matches decides. A probe either returns at once (\<open>Return\<close>: a \<open>return {ext, mime}\<close>
  or a \<open>return undefined\<close> decided on the sample bytes alone), or goes on to read
  from the tokenizer. The cascade is modelled in two steps: the probes, in the order of
  the source, choose a \<open>branch\<close> from the sample buffer; the branch is then run on the
  tokenizer. No probe touches the tokenizer before its branch is chosen, so the two
  steps are the cascade. \<open>NoMatch\<close>: no probe of the section matched, and the cascade
  goes on; \<open>Raise\<close>: a read outside the buffer threw.
\<close>

datatype branch =
    Return "fileType option"
  | Raise error
  | PostScript
  | Utf8Bom
  | Id3
  | Zip
  | Ogg
  | Pdf
  | TiffIfd int
  | Ebml
  | Ar
  | Png
  | Asf
  | Jp2
  | NoMatch

definition found :: "string \<Rightarrow> string \<Rightarrow> branch" where
  "found e m = Return (Some (FileType e m))"

text \<open>\<open>FileTypeParser.check(header, options)\<close> and \<open>checkString(header, options)\<close> on
  \<open>this.buffer\<close>.\<close>

definition check :: "byte list \<Rightarrow> byte list \<Rightarrow> nat \<Rightarrow> byte list option \<Rightarrow> bool" where
  "check buffer header off mask_opt = underscore_check buffer header off mask_opt"

definition checkString :: "byte list \<Rightarrow> string \<Rightarrow> nat \<Rightarrow> bool" where
  "checkString buffer header off = check buffer (stringToBytes header) off None"

text \<open>The \<open>switch (brandMajor)\<close> of the \<open>ftyp\<close> probe.\<close>

definition ftyp_fileType :: "jsstring \<Rightarrow> fileType" where
  "ftyp_fileType brandMajor =
     (if brandMajor = str ''avif'' \<or> brandMajor = str ''avis'' then FileType ''avif'' ''image/avif''
      else if brandMajor = str ''mif1'' then FileType ''heic'' ''image/heif''
      else if brandMajor = str ''msf1'' then FileType ''heic'' ''image/heif-sequence''
      else if brandMajor = str ''heic'' \<or> brandMajor = str ''heix'' then FileType ''heic'' ''image/heic''
      else if brandMajor = str ''hevc'' \<or> brandMajor = str ''hevx''
      then FileType ''heic'' ''image/heic-sequence''
      else if brandMajor = str ''qt'' then FileType ''mov'' ''video/quicktime''
      else if brandMajor = str ''M4V'' \<or> brandMajor = str ''M4VH'' \<or> brandMajor = str ''M4VP''
      then FileType ''m4v'' ''video/x-m4v''
      else if brandMajor = str ''M4P'' then FileType ''m4p'' ''video/mp4''
      else if brandMajor = str ''M4B'' then FileType ''m4b'' ''audio/mp4''
      else if brandMajor = str ''M4A'' then FileType ''m4a'' ''audio/x-m4a''
      else if brandMajor = str ''F4V'' then FileType ''f4v'' ''video/mp4''
      else if brandMajor = str ''F4P'' then FileType ''f4p'' ''video/mp4''
      else if brandMajor = str ''F4A'' then FileType ''f4a'' ''audio/mp4''
      else if brandMajor = str ''F4B'' then FileType ''f4b'' ''audio/mp4''
      else if brandMajor = str ''crx'' then FileType ''cr3'' ''image/x-canon-cr3''
      else if startsWith brandMajor (str ''3g'') then
        (if startsWith brandMajor (str ''3g2'') then FileType ''3g2'' ''video/3gpp2''
         else FileType ''3gp'' ''video/3gpp'')
      else FileType ''mp4'' ''video/mp4'')"

text \<open>\<open>readTiffHeader(bigEndian)\<close>, up to the point where it starts to read the image
  file directory from the tokenizer (\<open>TiffIfd ifdOffset\<close>). \<open>NoMatch\<close> is its
  \<open>undefined\<close>: the cascade goes on.\<close>

definition readTiffHeader :: "byte list \<Rightarrow> bool \<Rightarrow> branch" where
  "readTiffHeader buffer bigEndian =
     (case get (if bigEndian then UINT16_BE else UINT16_LE) buffer 2 of
        None \<Rightarrow> Raise RangeError
      | Some version \<Rightarrow>
          (case get (if bigEndian then UINT32_BE else UINT32_LE) buffer 4 of
             None \<Rightarrow> Raise RangeError
           | Some ifdOffset \<Rightarrow>
               if version = 42 then
                 (if ifdOffset \<ge> 6 \<and> checkString buffer ''CR'' 8
                  then found ''cr2'' ''image/x-canon-cr2''
                  else if ifdOffset \<ge> 6 \<and> ifdOffset \<ge> 8
                          \<and> (check buffer [0x1C, 0x00, 0xFE, 0x00] 8 None
                               \<or> check buffer [0x1F, 0x00, 0x0B, 0x00] 8 None)
                  then found ''nef'' ''image/x-nikon-nef''
                  else TiffIfd ifdOffset)
               else if version = 43 then found ''tif'' ''image/tiff''
               else NoMatch))"

definition tiff_little_endian :: "byte list \<Rightarrow> branch" where
  "tiff_little_endian buffer =
     (if check buffer [0x49, 0x49] 0 None then readTiffHeader buffer False else NoMatch)"

definition tiff_big_endian :: "byte list \<Rightarrow> branch" where
  "tiff_big_endian buffer =
     (if check buffer [0x4D, 0x4D] 0 None then readTiffHeader buffer True else NoMatch)"

text \<open>Probes whose body may end without a \<open>return\<close>, so that the cascade goes on.\<close>

definition riff :: "byte list \<Rightarrow> branch" where
  "riff buffer =
     (if check buffer [0x52, 0x49, 0x46, 0x46] 0 None then
        (if check buffer [0x41, 0x56, 0x49] 8 None then found ''avi'' ''video/vnd.avi''
         else if check buffer [0x57, 0x41, 0x56, 0x45] 8 None then found ''wav'' ''audio/vnd.wave''
         else if check buffer [0x51, 0x4C, 0x43, 0x4D] 8 None then found ''qcp'' ''audio/qcelp''
         else NoMatch)
      else NoMatch)"

definition mpeg_program_stream :: "byte list \<Rightarrow> branch" where
  "mpeg_program_stream buffer =
     (if check buffer [0x00, 0x00, 0x01, 0xBA] 0 None then
        (if check buffer [0x21] 4 (Some [0xF1]) then found ''mpg'' ''video/MP1S''
         else if check buffer [0x44] 4 (Some [0xC4]) then found ''mpg'' ''video/MP2P''
         else NoMatch)
      else NoMatch)"

definition vcard_calendar :: "byte list \<Rightarrow> branch" where
  "vcard_calendar buffer =
     (if checkString buffer ''BEGIN:'' 0 then
        (if checkString buffer ''VCARD'' 6 then found ''vcf'' ''text/vcard''
         else if checkString buffer ''VCALENDAR'' 6 then found ''ics'' ''text/calendar''
         else NoMatch)
      else NoMatch)"

text \<open>
  The Pickle/ASAR probe. \<open>JSON.parse\<close> is the platform's; the model takes as a
  parameter \<open>parse_files\<close> what the \<open>try\<close> block needs of it: for the header string,
  \<open>Some b\<close> when \<open>JSON.parse(header).files\<close> evaluates, \<open>b\<close> telling whether the value is
  truthy, and \<open>None\<close> when it throws (the empty \<open>catch\<close> swallows that).
\<close>

definition asar :: "(jsstring \<Rightarrow> bool option) \<Rightarrow> byte list \<Rightarrow> branch" where
  "asar parse_files buffer =
     (if check buffer [0x04, 0x00, 0x00, 0x00] 0 None \<and> length buffer \<ge> 16 then
        (case readUInt32LE buffer 12 of
           None \<Rightarrow> Raise RangeError
         | Some jsonSize \<Rightarrow>
             if jsonSize > 12 \<and> int (length buffer) \<ge> jsonSize + 16 then
               (if parse_files (toString buffer Utf8 16 (nat (jsonSize + 16))) = Some True
                then found ''asar'' ''application/x-asar''
                else NoMatch)
             else NoMatch)
      else NoMatch)"

definition mpeg_audio :: "byte list \<Rightarrow> branch" where
  "mpeg_audio buffer =
     (if length buffer \<ge> 2 \<and> check buffer [0xFF, 0xE0] 0 (Some [0xFF, 0xE0]) then
        (if check buffer [0x10] 1 (Some [0x16]) then
           (if check buffer [0x08] 1 (Some [0x08]) then found ''aac'' ''audio/aac''
            else found ''aac'' ''audio/aac'')
         else if check buffer [0x02] 1 (Some [0x06]) then found ''mp3'' ''audio/mpeg''
         else if check buffer [0x04] 1 (Some [0x06]) then found ''mp2'' ''audio/mpeg''
         else if check buffer [0x06] 1 (Some [0x06]) then found ''mp1'' ''audio/mpeg''
         else NoMatch)
      else NoMatch)"

text \<open>The 2-byte signatures.\<close>

definition signatures_2byte :: "byte list \<Rightarrow> branch" where
  "signatures_2byte buffer =
     (if check buffer [0x42, 0x4D] 0 None
      then found ''bmp'' ''image/bmp''
      else if check buffer [0x0B, 0x77] 0 None
      then found ''ac3'' ''audio/vnd.dolby.dd-raw''
      else if check buffer [0x78, 0x01] 0 None
      then found ''dmg'' ''application/x-apple-diskimage''
      else if check buffer [0x4D, 0x5A] 0 None
      then found ''exe'' ''application/x-msdownload''
      else if check buffer [0x25, 0x21] 0 None
      then PostScript
      else if check buffer [0x1F, 0xA0] 0 None \<or> check buffer [0x1F, 0x9D] 0 None
      then found ''Z'' ''application/x-compress''
      else NoMatch)"

text \<open>The 3-byte signatures.\<close>

definition signatures_3byte :: "byte list \<Rightarrow> branch" where
  "signatures_3byte buffer =
     (if check buffer [0xEF, 0xBB, 0xBF] 0 None
      then Utf8Bom
      else if check buffer [0x47, 0x49, 0x46] 0 None
      then found ''gif'' ''image/gif''
      else if check buffer [0xFF, 0xD8, 0xFF] 0 None
      then found ''jpg'' ''image/jpeg''
      else if check buffer [0x49, 0x49, 0xBC] 0 None
      then found ''jxr'' ''image/vnd.ms-photo''
      else if check buffer [0x1F, 0x8B, 0x08] 0 None
      then found ''gz'' ''application/gzip''
      else if check buffer [0x42, 0x5A, 0x68] 0 None
      then found ''bz2'' ''application/x-bzip2''
      else if checkString buffer ''ID3'' 0
      then Id3
      else if checkString buffer ''MP+'' 0
      then found ''mpc'' ''audio/x-musepack''
      else if (js_index buffer 0 = Some 0x43 \<or> js_index buffer 0 = Some 0x46)
              \<and> check buffer [0x57, 0x53] 1 None
      then found ''swf'' ''application/x-shockwave-flash''
      else NoMatch)"

text \<open>The 4-byte signatures, up to the \<open>ftyp\<close> box.\<close>

definition signatures_4byte_a :: "byte list \<Rightarrow> branch" where
  "signatures_4byte_a buffer =
     (if checkString buffer ''FLIF'' 0
      then found ''flif'' ''image/flif''
      else if checkString buffer ''8BPS'' 0
      then found ''psd'' ''image/vnd.adobe.photoshop''
      else if checkString buffer ''WEBP'' 8
      then found ''webp'' ''image/webp''
      else if checkString buffer ''MPCK'' 0
      then found ''mpc'' ''audio/x-musepack''
      else if checkString buffer ''FORM'' 0
      then found ''aif'' ''audio/aiff''
      else if checkString buffer ''icns'' 0
      then found ''icns'' ''image/icns''
      else if check buffer [0x50, 0x4B, 0x03, 0x04] 0 None
      then Zip
      else if checkString buffer ''OggS'' 0
      then Ogg
      else if check buffer [0x50, 0x4B] 0 None \<and> (js_index buffer 2 = Some 0x03
              \<or> js_index buffer 2 = Some 0x05 \<or> js_index buffer 2 = Some 0x07)
              \<and> (js_index buffer 3 = Some 0x04 \<or> js_index buffer 3 = Some 0x06
              \<or> js_index buffer 3 = Some 0x08)
      then found ''zip'' ''application/zip''
      else if checkString buffer ''ftyp'' 4
              \<and> js_bitand (js_index buffer 8) (Some 0x60) \<noteq> 0x00
      then Return (Some (ftyp_fileType (trim (replace_first_nul (toString buffer Binary 8 12)))))
      else NoMatch)"

text \<open>The 4-byte signatures from MIDI to TIFF.\<close>

definition signatures_4byte_b :: "byte list \<Rightarrow> branch" where
  "signatures_4byte_b buffer =
     (if checkString buffer ''MThd'' 0
      then found ''mid'' ''audio/midi''
      else if checkString buffer ''wOFF'' 0
              \<and> (check buffer [0x00, 0x01, 0x00, 0x00] 4 None
              \<or> checkString buffer ''OTTO'' 4)
      then found ''woff'' ''font/woff''
      else if checkString buffer ''wOF2'' 0
              \<and> (check buffer [0x00, 0x01, 0x00, 0x00] 4 None
              \<or> checkString buffer ''OTTO'' 4)
      then found ''woff2'' ''font/woff2''
      else if check buffer [0xD4, 0xC3, 0xB2, 0xA1] 0 None
              \<or> check buffer [0xA1, 0xB2, 0xC3, 0xD4] 0 None
      then found ''pcap'' ''application/vnd.tcpdump.pcap''
      else if checkString buffer ''DSD '' 0
      then found ''dsf'' ''audio/x-dsf''
      else if checkString buffer ''LZIP'' 0
      then found ''lz'' ''application/x-lzip''
      else if checkString buffer ''fLaC'' 0
      then found ''flac'' ''audio/x-flac''
      else if check buffer [0x42, 0x50, 0x47, 0xFB] 0 None
      then found ''bpg'' ''image/bpg''
      else if checkString buffer ''wvpk'' 0
      then found ''wv'' ''audio/wavpack''
      else if checkString buffer ''%PDF'' 0
      then Pdf
      else if check buffer [0x00, 0x61, 0x73, 0x6D] 0 None
      then found ''wasm'' ''application/wasm''
      else if tiff_little_endian buffer \<noteq> NoMatch
      then tiff_little_endian buffer
      else if tiff_big_endian buffer \<noteq> NoMatch
      then tiff_big_endian buffer
      else NoMatch)"

text \<open>The 4-byte signatures from Monkey's Audio on.\<close>

definition signatures_4byte_c :: "byte list \<Rightarrow> branch" where
  "signatures_4byte_c buffer =
     (if checkString buffer ''MAC '' 0
      then found ''ape'' ''audio/ape''
      else if check buffer [0x1A, 0x45, 0xDF, 0xA3] 0 None
      then Ebml
      else if riff buffer \<noteq> NoMatch
      then riff buffer
      else if checkString buffer ''SQLi'' 0
      then found ''sqlite'' ''application/x-sqlite3''
      else if check buffer [0x4E, 0x45, 0x53, 0x1A] 0 None
      then found ''nes'' ''application/x-nintendo-nes-rom''
      else if checkString buffer ''Cr24'' 0
      then found ''crx'' ''application/x-google-chrome-extension''
      else if checkString buffer ''MSCF'' 0 \<or> checkString buffer ''ISc('' 0
      then found ''cab'' ''application/vnd.ms-cab-compressed''
      else if check buffer [0xED, 0xAB, 0xEE, 0xDB] 0 None
      then found ''rpm'' ''application/x-rpm''
      else if check buffer [0xC5, 0xD0, 0xD3, 0xC6] 0 None
      then found ''eps'' ''application/eps''
      else if check buffer [0x28, 0xB5, 0x2F, 0xFD] 0 None
      then found ''zst'' ''application/zstd''
      else if check buffer [0x7F, 0x45, 0x4C, 0x46] 0 None
      then found ''elf'' ''application/x-elf''
      else NoMatch)"

text \<open>The 5-byte signatures.\<close>

definition signatures_5byte :: "byte list \<Rightarrow> branch" where
  "signatures_5byte buffer =
     (if check buffer [0x4F, 0x54, 0x54, 0x4F, 0x00] 0 None
      then found ''otf'' ''font/otf''
      else if checkString buffer ''#!AMR'' 0
      then found ''amr'' ''audio/amr''
      else if checkString buffer [CHR ''{'', CHR 0x5C, CHR ''r'', CHR ''t'', CHR ''f''] 0
      then found ''rtf'' ''application/rtf''
      else if check buffer [0x46, 0x4C, 0x56, 0x01] 0 None
      then found ''flv'' ''video/x-flv''
      else if checkString buffer ''IMPM'' 0
      then found ''it'' ''audio/x-it''
      else if checkString buffer ''-lh0-'' 2 \<or> checkString buffer ''-lh1-'' 2
              \<or> checkString buffer ''-lh2-'' 2 \<or> checkString buffer ''-lh3-'' 2
              \<or> checkString buffer ''-lh4-'' 2 \<or> checkString buffer ''-lh5-'' 2
              \<or> checkString buffer ''-lh6-'' 2 \<or> checkString buffer ''-lh7-'' 2
              \<or> checkString buffer ''-lzs-'' 2 \<or> checkString buffer ''-lz4-'' 2
              \<or> checkString buffer ''-lz5-'' 2 \<or> checkString buffer ''-lhd-'' 2
      then found ''lzh'' ''application/x-lzh-compressed''
      else if mpeg_program_stream buffer \<noteq> NoMatch
      then mpeg_program_stream buffer
      else if checkString buffer ''ITSF'' 0
      then found ''chm'' ''application/vnd.ms-htmlhelp''
      else NoMatch)"

text \<open>The 6-byte signatures.\<close>

definition signatures_6byte :: "byte list \<Rightarrow> branch" where
  "signatures_6byte buffer =
     (if check buffer [0xFD, 0x37, 0x7A, 0x58, 0x5A, 0x00] 0 None
      then found ''xz'' ''application/x-xz''
      else if checkString buffer ''<?xml '' 0
      then found ''xml'' ''application/xml''
      else if check buffer [0x37, 0x7A, 0xBC, 0xAF, 0x27, 0x1C] 0 None
      then found ''7z'' ''application/x-7z-compressed''
      else if check buffer [0x52, 0x61, 0x72, 0x21, 0x1A, 0x07] 0 None
              \<and> (js_index buffer 6 = Some 0x00 \<or> js_index buffer 6 = Some 0x01)
      then found ''rar'' ''application/x-rar-compressed''
      else if checkString buffer ''solid '' 0
      then found ''stl'' ''model/stl''
      else NoMatch)"

text \<open>The 7-byte signatures.\<close>

definition signatures_7byte :: "byte list \<Rightarrow> branch" where
  "signatures_7byte buffer =
     (if checkString buffer ''BLENDER'' 0
      then found ''blend'' ''application/x-blender''
      else if checkString buffer ''!<arch>'' 0
      then Ar
      else NoMatch)"

text \<open>The 8-byte signatures.\<close>

definition signatures_8byte :: "byte list \<Rightarrow> branch" where
  "signatures_8byte buffer =
     (if check buffer [0x89, 0x50, 0x4E, 0x47, 0x0D, 0x0A, 0x1A, 0x0A] 0 None
      then Png
      else if check buffer [0x41, 0x52, 0x52, 0x4F, 0x57, 0x31, 0x00, 0x00] 0 None
      then found ''arrow'' ''application/x-apache-arrow''
      else if check buffer [0x67, 0x6C, 0x54, 0x46, 0x02, 0x00, 0x00, 0x00] 0 None
      then found ''glb'' ''model/gltf-binary''
      else if check buffer [0x66, 0x72, 0x65, 0x65] 4 None
              \<or> check buffer [0x6D, 0x64, 0x61, 0x74] 4 None
              \<or> check buffer [0x6D, 0x6F, 0x6F, 0x76] 4 None
              \<or> check buffer [0x77, 0x69, 0x64, 0x65] 4 None
      then found ''mov'' ''video/quicktime''
      else NoMatch)"

text \<open>The 9-byte signatures.\<close>

definition signatures_9byte :: "byte list \<Rightarrow> branch" where
  "signatures_9byte buffer =
     (if check buffer [0x49, 0x49, 0x52, 0x4F, 0x08, 0x00, 0x00, 0x00, 0x18] 0 None
      then found ''orf'' ''image/x-olympus-orf''
      else if checkString buffer ''gimp xcf '' 0
      then found ''xcf'' ''image/x-xcf''
      else NoMatch)"

text \<open>The 12-byte signatures.\<close>

definition signatures_12byte :: "byte list \<Rightarrow> branch" where
  "signatures_12byte buffer =
     (if check buffer [0x49, 0x49, 0x55, 0x00, 0x18, 0x00, 0x00, 0x00, 0x88, 0xE7, 0x74,
             0xD8] 0 None
      then found ''rw2'' ''image/x-panasonic-rw2''
      else if check buffer [0x30, 0x26, 0xB2, 0x75, 0x8E, 0x66, 0xCF, 0x11, 0xA6, 0xD9] 0 None
      then Asf
      else if check buffer [0xAB, 0x4B, 0x54, 0x58, 0x20, 0x31, 0x31, 0xBB, 0x0D, 0x0A, 0x1A,
                  0x0A] 0 None
      then found ''ktx'' ''image/ktx''
      else if (check buffer [0x7E, 0x10, 0x04] 0 None
              \<or> check buffer [0x7E, 0x18, 0x04] 0 None)
              \<and> check buffer [0x30, 0x4D, 0x49, 0x45] 4 None
      then found ''mie'' ''application/x-mie''
      else if check buffer [0x27, 0x0A, 0x00, 0x00, 0x00, 0x00, 0x00, 0x00, 0x00, 0x00, 0x00,
                  0x00] 2 None
      then found ''shp'' ''application/x-esri-shape''
      else if check buffer [0x00, 0x00, 0x00, 0x0C, 0x6A, 0x50, 0x20, 0x20, 0x0D, 0x0A, 0x87,
                  0x0A] 0 None
      then Jp2
      else if check buffer [0xFF, 0x0A] 0 None
              \<or> check buffer [0x00, 0x00, 0x00, 0x0C, 0x4A, 0x58, 0x4C, 0x20, 0x0D, 0x0A,
                  0x87, 0x0A] 0 None
      then found ''jxl'' ''image/jxl''
      else if check buffer [0xFE, 0xFF] 0 None
      then (if check buffer [0, 60, 0, 63, 0, 120, 0, 109, 0, 108] 2 None
          then found ''xml'' ''application/xml''
          else Return None)
      else NoMatch)"

text \<open>The unsafe signatures.\<close>

definition signatures_unsafe :: "byte list \<Rightarrow> branch" where
  "signatures_unsafe buffer =
     (if check buffer [0x00, 0x00, 0x01, 0xBA] 0 None
         \<or> check buffer [0x00, 0x00, 0x01, 0xB3] 0 None
      then found ''mpg'' ''video/mpeg''
      else if check buffer [0x00, 0x01, 0x00, 0x00, 0x00] 0 None
      then found ''ttf'' ''font/ttf''
      else if check buffer [0x00, 0x00, 0x01, 0x00] 0 None
      then found ''ico'' ''image/x-icon''
      else if check buffer [0x00, 0x00, 0x02, 0x00] 0 None
      then found ''cur'' ''image/x-icon''
      else if check buffer [0xD0, 0xCF, 0x11, 0xE0, 0xA1, 0xB1, 0x1A, 0xE1] 0 None
      then found ''cfb'' ''application/x-cfb''
      else NoMatch)"

text \<open>The signatures read on the 256-byte sample.\<close>

definition signatures_256 :: "(jsstring \<Rightarrow> bool option) \<Rightarrow> byte list \<Rightarrow> branch" where
  "signatures_256 parse_files buffer =
     (if vcard_calendar buffer \<noteq> NoMatch
      then vcard_calendar buffer
      else if checkString buffer ''FUJIFILMCCD-RAW'' 0
      then found ''raf'' ''image/x-fujifilm-raf''
      else if checkString buffer ''Extended Module:'' 0
      then found ''xm'' ''audio/x-xm''
      else if checkString buffer ''Creative Voice File'' 0
      then found ''voc'' ''audio/x-voc''
      else if asar parse_files buffer \<noteq> NoMatch
      then asar parse_files buffer
      else if check buffer [0x06, 0x0E, 0x2B, 0x34, 0x02, 0x05, 0x01, 0x01, 0x0D, 0x01, 0x02,
                  0x01, 0x01, 0x02] 0 None
      then found ''mxf'' ''application/mxf''
      else if checkString buffer ''SCRM'' 44
      then found ''s3m'' ''audio/x-s3m''
      else if check buffer [0x47] 0 None \<and> check buffer [0x47] 188 None
      then found ''mts'' ''video/mp2t''
      else if check buffer [0x47] 4 None \<and> check buffer [0x47] 196 None
      then found ''mts'' ''video/mp2t''
      else if check buffer [0x42, 0x4F, 0x4F, 0x4B, 0x4D, 0x4F, 0x42, 0x49] 60 None
      then found ''mobi'' ''application/x-mobipocket-ebook''
      else if check buffer [0x44, 0x49, 0x43, 0x4D] 128 None
      then found ''dcm'' ''application/dicom''
      else if check buffer [0x4C, 0x00, 0x00, 0x00, 0x01, 0x14, 0x02, 0x00, 0x00, 0x00, 0x00,
                  0x00, 0xC0, 0x00, 0x00, 0x00, 0x00, 0x00, 0x00, 0x46] 0 None
      then found ''lnk'' ''application/x.ms.shortcut''
      else if check buffer [0x62, 0x6F, 0x6F, 0x6B, 0x00, 0x00, 0x00, 0x00, 0x6D, 0x61, 0x72,
                  0x6B, 0x00, 0x00, 0x00, 0x00] 0 None
      then found ''alias'' ''application/x.apple.alias''
      else if check buffer [0x4C, 0x50] 34 None
              \<and> (check buffer [0x00, 0x00, 0x01] 8 None
              \<or> check buffer [0x01, 0x00, 0x02] 8 None
              \<or> check buffer [0x02, 0x00, 0x02] 8 None)
      then found ''eot'' ''application/vnd.ms-fontobject''
      else if check buffer [0x06, 0x06, 0xED, 0xF5, 0xD8, 0x1D, 0x46, 0xE5, 0xBD, 0x31, 0xEF,
                  0xE7, 0xFE, 0x74, 0xB7, 0x1D] 0 None
      then found ''indd'' ''application/x-indesign''
      else NoMatch)"

text \<open>The signatures read on the 512-byte sample.\<close>

definition signatures_512 :: "byte list \<Rightarrow> branch" where
  "signatures_512 buffer =
     (if tarHeaderChecksumMatches buffer 0
      then found ''tar'' ''application/x-tar''
      else if check buffer [0xFF, 0xFE] 0 None
      then (if check buffer [60, 0, 63, 0, 120, 0, 109, 0, 108, 0] 2 None
          then found ''xml'' ''application/xml''
          else if check buffer [0xFF, 0x0E, 0x53, 0x00, 0x6B, 0x00, 0x65, 0x00, 0x74, 0x00, 0x63, 0x00,
                                0x68, 0x00, 0x55, 0x00, 0x70, 0x00, 0x20, 0x00, 0x4D, 0x00, 0x6F, 0x00,
                                0x64, 0x00, 0x65, 0x00, 0x6C, 0x00] 2 None
          then found ''skp'' ''application/vnd.sketchup.skp''
          else Return None)
      else if checkString buffer ''-----BEGIN PGP MESSAGE-----'' 0
      then found ''pgp'' ''application/pgp-encrypted''
      else if mpeg_audio buffer \<noteq> NoMatch
      then mpeg_audio buffer
      else NoMatch)"

section \<open>The container walks\<close>

text \<open>\<open>await p\<close> followed by the rest of the function: a rejection passes through.\<close>

fun await :: "'a promise \<Rightarrow> ('a \<Rightarrow> 'b promise) \<Rightarrow> 'b promise" where
  "await (Fulfilled v) k = k v"
| "await (Rejected e) k = Rejected e"
| "await Pending k = Pending"

text \<open>One pass of a loop body: it returns from the function (\<open>Break\<close>) or goes to the
  next iteration with the new state.\<close>

datatype ('r, 's) iteration = Break 'r | Continue 's

text \<open>The bytes a walk has not yet passed; the loops below end because it shrinks.\<close>

definition remaining :: "tokenizer \<Rightarrow> nat" where
  "remaining t = nat (fileInfo_size t - position t)"

subsection \<open>Ogg\<close>

definition ogg :: "tokenizer \<Rightarrow> fileType option promise" where
  "ogg t =
     await (readBuffer (ignore 28 t) (alloc 8) no_options) (\<lambda>(n, type, t').
       if underscore_check type [0x4F, 0x70, 0x75, 0x73, 0x48, 0x65, 0x61, 0x64] 0 None
       then Fulfilled (Some (FileType ''opus'' ''audio/opus''))
       else if underscore_check type [0x80, 0x74, 0x68, 0x65, 0x6F, 0x72, 0x61] 0 None
       then Fulfilled (Some (FileType ''ogv'' ''video/ogg''))
       else if underscore_check type [0x01, 0x76, 0x69, 0x64, 0x65, 0x6F, 0x00] 0 None
       then Fulfilled (Some (FileType ''ogm'' ''video/ogg''))
       else if underscore_check type [0x7F, 0x46, 0x4C, 0x41, 0x43] 0 None
       then Fulfilled (Some (FileType ''oga'' ''audio/ogg''))
       else if underscore_check type [0x53, 0x70, 0x65, 0x65, 0x78, 0x20, 0x20] 0 None
       then Fulfilled (Some (FileType ''spx'' ''audio/ogg''))
       else if underscore_check type [0x01, 0x76, 0x6F, 0x72, 0x62, 0x69, 0x73] 0 None
       then Fulfilled (Some (FileType ''ogg'' ''audio/ogg''))
       else Fulfilled (Some (FileType ''ogx'' ''application/ogg'')))"

subsection \<open>PDF and Adobe Illustrator\<close>

text \<open>\<open>buffer.indexOf(value)\<close> and \<open>buffer.includes(value)\<close> for a byte sequence.\<close>

fun indexOf_from :: "byte list \<Rightarrow> byte list \<Rightarrow> nat \<Rightarrow> int" where
  "indexOf_from [] val i = (if val = [] then int i else - 1)"
| "indexOf_from (b # bs) val i =
     (if prefix val (b # bs) then int i else indexOf_from bs val (Suc i))"

definition indexOf :: "byte list \<Rightarrow> byte list \<Rightarrow> int" where
  "indexOf buffer val = indexOf_from buffer val 0"

definition includes_bytes :: "byte list \<Rightarrow> byte list \<Rightarrow> bool" where
  "includes_bytes buffer val = (indexOf buffer val \<noteq> - 1)"

definition pdf :: "tokenizer \<Rightarrow> fileType option promise" where
  "pdf t =
     (let t1 = ignore 1350 t;
          maxBufferSize = 10 * 1024 * 1024;
          buffer = alloc (nat (min maxBufferSize (fileInfo_size t1)))
      in await (readBuffer t1 buffer (no_options\<lparr>opt_mayBeLess := True\<rparr>)) (\<lambda>(n, buffer', t2).
           if includes_bytes buffer' (stringToBytes ''AIPrivateData'')
           then Fulfilled (Some (FileType ''ai'' ''application/postscript''))
           else Fulfilled (Some (FileType ''pdf'' ''application/pdf''))))"

subsection \<open>TIFF image file directory\<close>

text \<open>\<open>readTiffTag\<close>; its \<open>this.tokenizer.ignore(10)\<close> is not awaited, but the buffer
  tokenizer's \<open>ignore\<close> has moved the position when the call returns.\<close>

definition readTiffTag :: "tokenizer \<Rightarrow> bool \<Rightarrow> (fileType option \<times> tokenizer) promise" where
  "readTiffTag t bigEndian =
     await (readToken t (if bigEndian then UINT16_BE else UINT16_LE)) (\<lambda>(tagId, t1).
       Fulfilled
         (if tagId = 50341 then Some (FileType ''arw'' ''image/x-sony-arw'')
          else if tagId = 50706 then Some (FileType ''dng'' ''image/x-adobe-dng'')
          else None,
          ignore 10 t1))"

text \<open>The \<open>for\<close> loop of \<open>readTiffIFD\<close>; the first argument counts the tags left.\<close>

fun readTiffTags :: "nat \<Rightarrow> tokenizer \<Rightarrow> bool \<Rightarrow> fileType option promise" where
  "readTiffTags 0 t bigEndian = Fulfilled None"
| "readTiffTags (Suc k) t bigEndian =
     await (readTiffTag t bigEndian) (\<lambda>(fileType, t').
       case fileType of Some r \<Rightarrow> Fulfilled (Some r) | None \<Rightarrow> readTiffTags k t' bigEndian)"

definition readTiffIFD :: "tokenizer \<Rightarrow> bool \<Rightarrow> fileType option promise" where
  "readTiffIFD t bigEndian =
     await (readToken t (if bigEndian then UINT16_BE else UINT16_LE)) (\<lambda>(numberOfTags, t1).
       readTiffTags (nat numberOfTags) t1 bigEndian)"

text \<open>The end of \<open>readTiffHeader\<close> for version 42; it calls \<open>readTiffIFD(false)\<close>
  whatever the byte order.\<close>

definition tiff_ifd :: "int \<Rightarrow> tokenizer \<Rightarrow> fileType option promise" where
  "tiff_ifd ifdOffset t =
     await (readTiffIFD (ignore ifdOffset t) False) (\<lambda>fileType.
       Fulfilled (Some (case fileType of Some r \<Rightarrow> r | None \<Rightarrow> FileType ''tif'' ''image/tiff'')))"

subsection \<open>Matroska (EBML)\<close>

text \<open>The \<open>while\<close> loop of \<open>readField\<close> on 32-bit integers: the number of leading zero
  bits of the first byte, 8 when it is 0.\<close>

function readField_loop :: "32 word \<Rightarrow> 32 word \<Rightarrow> nat \<Rightarrow> nat" where
  "readField_loop msb m ic =
     (if msb AND m = 0 \<and> m \<noteq> 0 then readField_loop msb (drop_bit 1 m) (Suc ic) else ic)"
  by pat_completeness auto
termination
proof (relation "measure (\<lambda>(msb, m, ic). unat m)")
  show "wf (measure (\<lambda>(msb, m, ic). unat m))"
    by simp
next
  fix msb m :: "32 word" and ic :: nat
  assume "msb AND m = 0 \<and> m \<noteq> 0"
  then have "unat m \<noteq> 0"
    by (simp add: unat_eq_0)
  then have "unat m div 2 < unat m"
    by simp
  then show "((msb, drop_bit 1 m, Suc ic), (msb, m, ic)) \<in> measure (\<lambda>(msb, m, ic). unat m)"
    by (simp add: drop_bit_eq_div unat_div)
qed

declare readField_loop.simps [simp del]

definition readField :: "tokenizer \<Rightarrow> (byte list \<times> tokenizer) promise" where
  "readField t =
     await (peekNumber t UINT8) (\<lambda>msb.
       let ic = readField_loop (word_of_int msb) 0x80 0
       in await (readBuffer t (alloc (ic + 1)) no_options) (\<lambda>(n, id, t'). Fulfilled (id, t')))"

text \<open>\<open>readElement\<close>: both fields are read before \<open>readUIntBE\<close> is called on them.\<close>

definition readElement :: "tokenizer \<Rightarrow> ((int \<times> int) \<times> tokenizer) promise" where
  "readElement t =
     await (readField t) (\<lambda>(id, t1).
     await (readField t1) (\<lambda>(lengthField, t2).
       let lengthField' =
             lengthField[0 := (lengthField ! 0) XOR drop_bit (length lengthField - 1) 0x80];
           nrLength = min 6 (length lengthField)
       in case readUIntBE id 0 (length id) of
            None \<Rightarrow> Rejected RangeError
          | Some idValue \<Rightarrow>
              (case readUIntBE lengthField' (length lengthField - nrLength) nrLength of
                 None \<Rightarrow> Rejected RangeError
               | Some lenValue \<Rightarrow> Fulfilled ((idValue, lenValue), t2))))"

function readChildren :: "int \<Rightarrow> tokenizer \<Rightarrow> jsstring option promise" where
  "readChildren children t =
     (if children > 0 then
        await (readElement t) (\<lambda>((id, len), t1).
          if id = 0x4282 then
            await (readToken t1 (StringType (nat len) Utf8)) (\<lambda>(rawValue, t2).
              Fulfilled (Some (replace_nul_to_end rawValue)))
          else readChildren (children - 1) (ignore len t1))
      else Fulfilled None)"
  by pat_completeness auto
termination
  by (relation "measure (\<lambda>(children, t). nat children)") auto

declare readChildren.simps [simp del]

definition ebml :: "tokenizer \<Rightarrow> fileType option promise" where
  "ebml t =
     await (readElement t) (\<lambda>((id, len), t1).
     await (readChildren len t1) (\<lambda>docType.
       if docType = Some (str ''webm'') then Fulfilled (Some (FileType ''webm'' ''video/webm''))
       else if docType = Some (str ''matroska'')
       then Fulfilled (Some (FileType ''mkv'' ''video/x-matroska''))
       else Fulfilled None))"

subsection \<open>Unix archive and Debian package\<close>

definition ar :: "tokenizer \<Rightarrow> fileType option promise" where
  "ar t =
     await (readToken (ignore 8 t) (StringType 13 Ascii)) (\<lambda>(string, t').
       if string = str ''debian-binary'' then Fulfilled (Some (FileType ''deb'' ''application/x-deb''))
       else Fulfilled (Some (FileType ''ar'' ''application/x-unix-archive'')))"

subsection \<open>JPEG 2000\<close>

definition jp2 :: "tokenizer \<Rightarrow> fileType option promise" where
  "jp2 t =
     await (readToken (ignore 20 t) (StringType 4 Ascii)) (\<lambda>(type, t').
       if type = str ''jp2 '' then Fulfilled (Some (FileType ''jp2'' ''image/jp2''))
       else if type = str ''jpx '' then Fulfilled (Some (FileType ''jpx'' ''image/jpx''))
       else if type = str ''jpm '' then Fulfilled (Some (FileType ''jpm'' ''image/jpm''))
       else if type = str ''mjp2'' then Fulfilled (Some (FileType ''mj2'' ''image/mj2''))
       else Fulfilled None)"

subsection \<open>Facts about the tokenizer that the loops rest on\<close>

lemma uint8Array_ignore [simp]: "uint8Array (ignore n t) = uint8Array t"
  by (simp add: ignore_def Let_def)

lemma fileInfo_size_ignore [simp]: "fileInfo_size (ignore n t) = fileInfo_size t"
  by (simp add: fileInfo_size_def)

lemma position_ignore:
  "position (ignore n t) =
     (if n > fileInfo_size t - position t then fileInfo_size t else position t + n)"
  by (simp add: ignore_def Let_def)

lemma remaining_ignore: "0 \<le> n \<Longrightarrow> remaining (ignore n t) \<le> remaining t"
  by (auto simp: remaining_def position_ignore)

lemma remaining_ignore_less:
  "0 < n \<Longrightarrow> position t < fileInfo_size t \<Longrightarrow> remaining (ignore n t) < remaining t"
  by (auto simp: remaining_def position_ignore)

lemma peekBuffer_Fulfilled:
  assumes "peekBuffer t array opts = Fulfilled (n, array')"
  shows "length array' = length array"
    and "n = min (fileInfo_size t - (if truthy (opt_position opts) then the (opt_position opts) else position t))
                 (if truthy (opt_length opts) then the (opt_length opts) else int (length array))"
    and "\<not> opt_mayBeLess opts \<Longrightarrow>
           n = (if truthy (opt_length opts) then the (opt_length opts) else int (length array))"
  using assms
  by (auto simp: peekBuffer_def normalizeOptions_def Let_def set_bytes_def fileInfo_size_def
      split: if_splits option.splits)

lemma readBuffer_Fulfilled:
  assumes "readBuffer t array opts = Fulfilled (n, array', t')"
    and "opt_position opts = None \<or> opt_position opts = Some (position t)"
  shows "uint8Array t' = uint8Array t"
    and "position t' = position t + n"
    and "length array' = length array"
    and "n \<le> fileInfo_size t - position t"
    and "\<not> opt_mayBeLess opts \<Longrightarrow>
           n = (if truthy (opt_length opts) then the (opt_length opts) else int (length array))"
proof -
  define t1 where "t1 = (if truthy (opt_position opts) then t\<lparr>position := the (opt_position opts)\<rparr> else t)"
  have t1: "t1 = t"
    using assms(2) by (auto simp: t1_def truthy_def)
  from assms(1) have pk: "peekBuffer t array opts = Fulfilled (n, array')"
    and t': "t' = t\<lparr>position := position t + n\<rparr>"
    using t1 unfolding readBuffer_def Let_def t1_def [symmetric]
    by (auto split: if_splits promise.splits)
  show "uint8Array t' = uint8Array t" "position t' = position t + n"
    by (simp_all add: t')
  show "length array' = length array"
    by (rule peekBuffer_Fulfilled(1) [OF pk])
  have "truthy (opt_position opts) \<Longrightarrow> the (opt_position opts) = position t"
    using assms(2) by (auto simp: truthy_def)
  then show "n \<le> fileInfo_size t - position t"
    using peekBuffer_Fulfilled(2) [OF pk] by (auto simp: min_def split: if_splits)
  show "\<not> opt_mayBeLess opts \<Longrightarrow>
           n = (if truthy (opt_length opts) then the (opt_length opts) else int (length array))"
    by (rule peekBuffer_Fulfilled(3) [OF pk])
qed

lemma readToken_Fulfilled:
  assumes "readToken t token = Fulfilled (v, t')"
  shows "uint8Array t' = uint8Array t"
    and "position t' = position t + int (len token)"
    and "int (len token) \<le> fileInfo_size t - position t"
    and "\<exists>array. get token array 0 = Some v"
proof -
  from assms obtain n array where
    rb: "readBuffer t (alloc (len token)) (no_options\<lparr>opt_position := Some (position t)\<rparr>)
           = Fulfilled (n, array, t')"
    and v: "get token array 0 = Some v"
    by (auto simp: readToken_def split: promise.splits if_splits option.splits)
  show "\<exists>array. get token array 0 = Some v"
    using v by blast
  have n: "n = int (len token)"
    using readBuffer_Fulfilled(5) [OF rb] by (simp add: no_options_def truthy_def alloc_def)
  show "uint8Array t' = uint8Array t"
    using readBuffer_Fulfilled(1) [OF rb] by simp
  show "position t' = position t + int (len token)"
    using readBuffer_Fulfilled(2) [OF rb] n by simp
  show "int (len token) \<le> fileInfo_size t - position t"
    using readBuffer_Fulfilled(4) [OF rb] n by simp
qed


lemma await_eq_Fulfilled:
  "(await p k = Fulfilled r) = (\<exists>v. p = Fulfilled v \<and> k v = Fulfilled r)"
  by (cases p) auto

lemma be_value_nonneg_aux: "0 \<le> acc \<Longrightarrow> 0 \<le> foldl (\<lambda>acc b. acc * 256 + uint b) acc bs"
  by (induction bs arbitrary: acc) simp_all

lemma be_value_nonneg: "0 \<le> be_value bs"
  by (simp add: be_value_def be_value_nonneg_aux)

lemma readUInt16LE_nonneg: "readUInt16LE buffer off = Some v \<Longrightarrow> 0 \<le> v"
  by (auto simp: readUInt16LE_def be_value_nonneg)

lemma readUInt32LE_nonneg: "readUInt32LE buffer off = Some v \<Longrightarrow> 0 \<le> v"
  by (auto simp: readUInt32LE_def be_value_nonneg)

subsection \<open>PNG and APNG\<close>

definition readChunkHeader :: "tokenizer \<Rightarrow> ((int \<times> jsstring) \<times> tokenizer) promise" where
  "readChunkHeader t =
     await (readToken t INT32_BE) (\<lambda>(length, t1).
     await (readToken t1 (StringType 4 Binary)) (\<lambda>(type, t2).
       Fulfilled ((length, type), t2)))"

text \<open>The body of the \<open>do ... while\<close> loop.\<close>

definition png_chunk :: "tokenizer \<Rightarrow> (fileType option, tokenizer) iteration promise" where
  "png_chunk t =
     await (readChunkHeader t) (\<lambda>((length, type), t1).
       if length < 0 then Fulfilled (Break None)
       else if type = str ''IDAT'' then Fulfilled (Break (Some (FileType ''png'' ''image/png'')))
       else if type = str ''acTL'' then Fulfilled (Break (Some (FileType ''apng'' ''image/apng'')))
       else Fulfilled (Continue (ignore (length + 4) t1)))"

lemma png_chunk_Continue:
  assumes "png_chunk t = Fulfilled (Continue t')"
  shows "remaining t' < remaining t"
proof -
  from assms obtain length type t1 t2 where
    r1: "readToken t INT32_BE = Fulfilled (length, t1)"
    and r2: "readToken t1 (StringType 4 Binary) = Fulfilled (type, t2)"
    and len: "0 \<le> length" and t': "t' = ignore (length + 4) t2"
    by (auto simp: png_chunk_def readChunkHeader_def await_eq_Fulfilled split: if_splits)
  have "remaining t2 < remaining t"
    using readToken_Fulfilled [OF r1] readToken_Fulfilled [OF r2]
    by (simp add: remaining_def fileInfo_size_def INT32_BE_def StringType_def)
  moreover have "remaining t' \<le> remaining t2"
    unfolding t' using len by (intro remaining_ignore) simp
  ultimately show ?thesis by simp
qed

function png_loop :: "tokenizer \<Rightarrow> fileType option promise" where
  "png_loop t =
     (case png_chunk t of
        Fulfilled (Break r) \<Rightarrow> Fulfilled r
      | Fulfilled (Continue t') \<Rightarrow>
          if position t' + 8 < fileInfo_size t' then png_loop t'
          else Fulfilled (Some (FileType ''png'' ''image/png''))
      | Rejected e \<Rightarrow> Rejected e
      | Pending \<Rightarrow> Pending)"
  by pat_completeness auto
termination
  by (relation "measure remaining") (auto dest: png_chunk_Continue)

declare png_loop.simps [simp del]

definition png :: "tokenizer \<Rightarrow> fileType option promise" where
  "png t = png_loop (ignore 8 t)"


subsection \<open>ASF\<close>

definition readHeader :: "tokenizer \<Rightarrow> ((byte list \<times> int) \<times> tokenizer) promise" where
  "readHeader t =
     await (readBuffer t (alloc 16) no_options) (\<lambda>(n, guid, t1).
     await (readToken t1 UINT64_LE) (\<lambda>(size, t2).
       Fulfilled ((guid, size), t2)))"

text \<open>The body of the \<open>while\<close> loop. Its \<open>break\<close> leaves the loop for the default
  \<open>return\<close> after it.\<close>

definition asf_object :: "tokenizer \<Rightarrow> (fileType option, tokenizer) iteration promise" where
  "asf_object t =
     await (readHeader t) (\<lambda>((id, size), t1).
       let payload = size - 24 in
       if underscore_check id [0x91, 0x07, 0xDC, 0xB7, 0xB7, 0xA9, 0xCF, 0x11,
                               0x8E, 0xE6, 0x00, 0xC0, 0x0C, 0x20, 0x53, 0x65] 0 None
       then
         await (readBuffer t1 (alloc 16) no_options) (\<lambda>(n, typeId, t2).
           if underscore_check typeId [0x40, 0x9E, 0x69, 0xF8, 0x4D, 0x5B, 0xCF, 0x11,
                                       0xA8, 0xFD, 0x00, 0x80, 0x5F, 0x5C, 0x44, 0x2B] 0 None
           then Fulfilled (Break (Some (FileType ''asf'' ''audio/x-ms-asf'')))
           else if underscore_check typeId [0xC0, 0xEF, 0x19, 0xBC, 0x4D, 0x5B, 0xCF, 0x11,
                                            0xA8, 0xFD, 0x00, 0x80, 0x5F, 0x5C, 0x44, 0x2B] 0 None
           then Fulfilled (Break (Some (FileType ''asf'' ''video/x-ms-asf'')))
           else Fulfilled (Break (Some (FileType ''asf'' ''application/vnd.ms-asf''))))
       else Fulfilled (Continue (ignore payload t1)))"

text \<open>
  The \<open>while\<close> loop. An object whose size field is 0 has the payload \<open>-24\<close>, and
  \<open>ignore\<close> of it moves the position back to where the object started: the loop need
  not end. The first argument bounds the number of iterations; \<open>Pending\<close> says the
  loop has not ended within the bound.
\<close>

fun asf_loop :: "nat \<Rightarrow> tokenizer \<Rightarrow> fileType option promise" where
  "asf_loop 0 t =
     (if position t + 24 < fileInfo_size t then Pending
      else Fulfilled (Some (FileType ''asf'' ''application/vnd.ms-asf'')))"
| "asf_loop (Suc fuel) t =
     (if position t + 24 < fileInfo_size t then
        await (asf_object t) (\<lambda>step.
          case step of Break r \<Rightarrow> Fulfilled r | Continue t' \<Rightarrow> asf_loop fuel t')
      else Fulfilled (Some (FileType ''asf'' ''application/vnd.ms-asf'')))"

definition asf :: "nat \<Rightarrow> tokenizer \<Rightarrow> fileType option promise" where
  "asf fuel t = asf_loop fuel (ignore 30 t)"

subsection \<open>ZIP and the formats built on it\<close>

text \<open>The \<open>switch\<close> on the first path component of a \<open>.rels\<close> or \<open>.xml\<close> entry.\<close>

definition zip_office :: "jsstring \<Rightarrow> fileType option" where
  "zip_office filename =
     (if endsWith filename (str ''.rels'') \<or> endsWith filename (str ''.xml'') then
        (let type = split_slash_first filename in
         if type = str ''_rels'' then None
         else if type = str ''word'' then
           Some (FileType ''docx''
             ''application/vnd.openxmlformats-officedocument.wordprocessingml.document'')
         else if type = str ''ppt'' then
           Some (FileType ''pptx''
             ''application/vnd.openxmlformats-officedocument.presentationml.presentation'')
         else if type = str ''xl'' then
           Some (FileType ''xlsx''
             ''application/vnd.openxmlformats-officedocument.spreadsheetml.sheet'')
         else None)
      else None)"

text \<open>The \<open>switch\<close> on the content of the \<open>mimetype\<close> entry.\<close>

definition zip_mimetype :: "jsstring \<Rightarrow> fileType option" where
  "zip_mimetype mimeType =
     (if mimeType = str ''application/epub+zip''
      then Some (FileType ''epub'' ''application/epub+zip'')
      else if mimeType = str ''application/vnd.oasis.opendocument.text''
      then Some (FileType ''odt'' ''application/vnd.oasis.opendocument.text'')
      else if mimeType = str ''application/vnd.oasis.opendocument.spreadsheet''
      then Some (FileType ''ods'' ''application/vnd.oasis.opendocument.spreadsheet'')
      else if mimeType = str ''application/vnd.oasis.opendocument.presentation''
      then Some (FileType ''odp'' ''application/vnd.oasis.opendocument.presentation'')
      else None)"

text \<open>
  The inner \<open>while\<close> loop that looks for the next local file header, from
  \<open>nextHeaderIndex\<close>, the sample buffer and the tokenizer. With an empty buffer the
  loop would neither find a header nor move: it never ends (\<open>Pending\<close>).
\<close>

function zip_resync :: "int \<Rightarrow> byte list \<Rightarrow> tokenizer \<Rightarrow> (byte list \<times> tokenizer) promise" where
  "zip_resync nextHeaderIndex buffer t =
     (if nextHeaderIndex < 0 \<and> position t < fileInfo_size t then
        (if length buffer = 0 then Pending
         else
           (case peekBuffer t buffer (no_options\<lparr>opt_mayBeLess := True\<rparr>) of
              Fulfilled (n, buffer') \<Rightarrow>
                let nextHeaderIndex' = indexOf buffer' [0x50, 0x4B, 0x03, 0x04]
                in zip_resync nextHeaderIndex' buffer'
                     (ignore (if nextHeaderIndex' \<ge> 0 then nextHeaderIndex'
                              else int (length buffer')) t)
            | Rejected e \<Rightarrow> Rejected e
            | Pending \<Rightarrow> Pending))
      else Fulfilled (buffer, t))"
  by pat_completeness auto
termination
proof (relation "measure (\<lambda>(i, buffer, t). (if i < 0 then 1 else 0) + 2 * remaining t)")
  show "wf (measure (\<lambda>(i, buffer, t). (if i < 0 then 1 else 0) + 2 * remaining t))"
    by simp
next
  fix nextHeaderIndex :: int and buffer buffer' :: "byte list" and t :: tokenizer
    and x :: "int \<times> byte list" and n :: int and i' :: int
  assume guard: "nextHeaderIndex < 0 \<and> position t < fileInfo_size t"
    and nonempty: "length buffer \<noteq> 0"
    and pk: "peekBuffer t buffer (no_options\<lparr>opt_mayBeLess := True\<rparr>) = Fulfilled x"
    and x: "(n, buffer') = x"
    and i': "i' = indexOf buffer' [0x50, 0x4B, 0x03, 0x04]"
  have len: "length buffer' = length buffer"
    using peekBuffer_Fulfilled(1) [of t buffer _ n buffer'] pk x by simp
  show "((i', buffer', ignore (if 0 \<le> i' then i' else int (length buffer')) t),
         nextHeaderIndex, buffer, t)
        \<in> measure (\<lambda>(i, buffer, t). (if i < 0 then 1 else 0) + 2 * remaining t)"
  proof (cases "0 \<le> i'")
    case True
    then show ?thesis
      using guard remaining_ignore [of i' t] by simp
  next
    case False
    have "remaining (ignore (int (length buffer')) t) < remaining t"
      using guard nonempty len by (intro remaining_ignore_less) simp_all
    with False show ?thesis
      using guard by simp
  qed
qed

declare zip_resync.simps [simp del]

lemma zip_resync_remaining:
  "zip_resync i buffer t = Fulfilled (buffer', t') \<Longrightarrow> remaining t' \<le> remaining t"
proof (induction i buffer t rule: zip_resync.induct)
  case (1 i buffer t)
  note unf = "1.prems" [unfolded zip_resync.simps [of i buffer t]]
  show ?case
  proof (cases "i < 0 \<and> position t < fileInfo_size t")
    case False
    with unf show ?thesis by (simp split: if_splits)
  next
    case True
    with unf have nonempty: "length buffer \<noteq> 0"
      by (auto split: if_splits)
    from True nonempty unf obtain n b1 where
      pk: "peekBuffer t buffer (no_options\<lparr>opt_mayBeLess := True\<rparr>) = Fulfilled (n, b1)"
      by (auto split: promise.splits)
    define i' where "i' = indexOf b1 [0x50, 0x4B, 0x03, 0x04]"
    define t1 where "t1 = ignore (if 0 \<le> i' then i' else int (length b1)) t"
    have rec: "zip_resync i' b1 t1 = Fulfilled (buffer', t')"
      using unf True nonempty pk by (auto simp add: i'_def t1_def Let_def split: if_splits)
    have "remaining t' \<le> remaining t1"
      using "1.IH" [OF True nonempty pk refl i'_def] rec
      by (simp add: t1_def)
    moreover have "remaining t1 \<le> remaining t"
      unfolding t1_def by (rule remaining_ignore) simp
    ultimately show ?thesis by simp
  qed
qed

text \<open>What follows the probes of one entry: skip its data, or look for the next header
  when the compressed size is 0.\<close>

definition zip_skip ::
  "int \<Rightarrow> byte list \<Rightarrow> tokenizer \<Rightarrow> (fileType option, byte list \<times> tokenizer) iteration promise" where
  "zip_skip compressedSize buffer t =
     (if compressedSize = 0 then
        await (zip_resync (- 1) buffer t) (\<lambda>(buffer', t'). Fulfilled (Continue (buffer', t')))
      else Fulfilled (Continue (buffer, ignore compressedSize t)))"

text \<open>The body of the outer \<open>while\<close> loop: one local file header.\<close>

definition zip_entry ::
  "byte list \<Rightarrow> tokenizer \<Rightarrow> (fileType option, byte list \<times> tokenizer) iteration promise" where
  "zip_entry buffer t =
     await (readBuffer t buffer (no_options\<lparr>opt_length := Some 30\<rparr>)) (\<lambda>(n, buffer1, t1).
       case readUInt32LE buffer1 18 of None \<Rightarrow> Rejected RangeError | Some compressedSize \<Rightarrow>
       case readUInt32LE buffer1 22 of None \<Rightarrow> Rejected RangeError | Some uncompressedSize \<Rightarrow>
       case readUInt16LE buffer1 26 of None \<Rightarrow> Rejected RangeError | Some filenameLength \<Rightarrow>
       case readUInt16LE buffer1 28 of None \<Rightarrow> Rejected RangeError | Some extraFieldLength \<Rightarrow>
       await (readToken t1 (StringType (nat filenameLength) Utf8)) (\<lambda>(filename, t2).
         let t3 = ignore extraFieldLength t2 in
         if filename = str ''META-INF/mozilla.rsa''
         then Fulfilled (Break (Some (FileType ''xpi'' ''application/x-xpinstall'')))
         else if zip_office filename \<noteq> None then Fulfilled (Break (zip_office filename))
         else if startsWith filename (str ''xl/'')
         then Fulfilled (Break (Some (FileType ''xlsx''
                ''application/vnd.openxmlformats-officedocument.spreadsheetml.sheet'')))
         else if startsWith filename (str ''3D/'') \<and> endsWith filename (str ''.model'')
         then Fulfilled (Break (Some (FileType ''3mf'' ''model/3mf'')))
         else if filename = str ''mimetype'' \<and> compressedSize = uncompressedSize then
           await (readToken t3 (StringType (nat compressedSize) Utf8)) (\<lambda>(mimeType, t4).
             if zip_mimetype (trim mimeType) \<noteq> None
             then Fulfilled (Break (zip_mimetype (trim mimeType)))
             else zip_skip compressedSize buffer1 t4)
         else zip_skip compressedSize buffer1 t3))"

lemma zip_skip_Continue:
  assumes "zip_skip c buffer t = Fulfilled (Continue (buffer', t'))" and "0 \<le> c"
  shows "remaining t' \<le> remaining t"
  using assms
  by (auto simp: zip_skip_def await_eq_Fulfilled remaining_ignore
      split: if_splits dest: zip_resync_remaining)

lemma zip_entry_Continue:
  assumes "zip_entry buffer t = Fulfilled (Continue (buffer', t'))"
  shows "remaining t' < remaining t"
proof -
  from assms obtain n buffer1 t1 where
    rb: "readBuffer t buffer (no_options\<lparr>opt_length := Some 30\<rparr>) = Fulfilled (n, buffer1, t1)"
    by (auto simp: zip_entry_def await_eq_Fulfilled)
  have n: "n = 30"
    using readBuffer_Fulfilled(5) [OF rb] by (simp add: no_options_def truthy_def)
  have t1: "position t1 = position t + 30" "30 \<le> fileInfo_size t - position t"
    "uint8Array t1 = uint8Array t"
    using readBuffer_Fulfilled(1,2,4) [OF rb] n by (simp_all add: no_options_def)
  from assms rb obtain c u fl el filename t2 where
    c: "readUInt32LE buffer1 18 = Some c" and el: "readUInt16LE buffer1 28 = Some el"
    and rt: "readToken t1 (StringType (nat fl) Utf8) = Fulfilled (filename, t2)"
    and rest: "(\<exists>m t4. readToken (ignore el t2) (StringType (nat c) Utf8) = Fulfilled (m, t4)
                 \<and> zip_skip c buffer1 t4 = Fulfilled (Continue (buffer', t')))
               \<or> zip_skip c buffer1 (ignore el t2) = Fulfilled (Continue (buffer', t'))"
    by (auto simp: zip_entry_def await_eq_Fulfilled Let_def split: option.splits if_splits)
  have c0: "0 \<le> c" and el0: "0 \<le> el"
    using c el by (auto dest: readUInt32LE_nonneg readUInt16LE_nonneg)
  have t2: "remaining t2 \<le> remaining t1"
    using readToken_Fulfilled [OF rt] by (simp add: remaining_def fileInfo_size_def)
  have t3: "remaining (ignore el t2) \<le> remaining t2"
    using el0 by (rule remaining_ignore)
  have "remaining t' \<le> remaining (ignore el t2)"
  proof -
    from rest show ?thesis
    proof
      assume "\<exists>m t4. readToken (ignore el t2) (StringType (nat c) Utf8) = Fulfilled (m, t4)
                 \<and> zip_skip c buffer1 t4 = Fulfilled (Continue (buffer', t'))"
      then obtain m t4 where
        r4: "readToken (ignore el t2) (StringType (nat c) Utf8) = Fulfilled (m, t4)"
        and sk: "zip_skip c buffer1 t4 = Fulfilled (Continue (buffer', t'))"
        by blast
      have "remaining t4 \<le> remaining (ignore el t2)"
        using readToken_Fulfilled [OF r4] by (simp add: remaining_def fileInfo_size_def)
      with zip_skip_Continue [OF sk c0] show ?thesis by simp
    next
      assume "zip_skip c buffer1 (ignore el t2) = Fulfilled (Continue (buffer', t'))"
      then show ?thesis using c0 by (rule zip_skip_Continue)
    qed
  qed
  moreover have "remaining t1 < remaining t"
    using t1 by (simp add: remaining_def fileInfo_size_def)
  ultimately show ?thesis using t2 t3 by simp
qed

function zip_loop :: "byte list \<Rightarrow> tokenizer \<Rightarrow> fileType option promise" where
  "zip_loop buffer t =
     (if position t + 30 < fileInfo_size t then
        (case zip_entry buffer t of
           Fulfilled (Break r) \<Rightarrow> Fulfilled r
         | Fulfilled (Continue (buffer', t')) \<Rightarrow> zip_loop buffer' t'
         | Rejected e \<Rightarrow> Rejected e
         | Pending \<Rightarrow> Pending)
      else Fulfilled (Some (FileType ''zip'' ''application/zip'')))"
  by pat_completeness auto
termination
  by (relation "measure (\<lambda>(buffer, t). remaining t)") (auto dest: zip_entry_Continue)

declare zip_loop.simps [simp del]

text \<open>The \<open>try\<close> around the loop: an \<open>EndOfStreamError\<close> ends the walk with the default
  \<open>zip\<close>, any other error is thrown again.\<close>

definition zip :: "byte list \<Rightarrow> tokenizer \<Rightarrow> fileType option promise" where
  "zip buffer t =
     (case zip_loop buffer t of
        Rejected e \<Rightarrow>
          if e \<noteq> EndOfStreamError then Rejected e
          else Fulfilled (Some (FileType ''zip'' ''application/zip''))
      | p \<Rightarrow> p)"


section \<open>The parser\<close>

text \<open>The first twelve sections of the cascade, on the sample of 12 bytes.\<close>

definition signatures_12 :: "byte list \<Rightarrow> branch" where
  "signatures_12 buffer =
     (if signatures_2byte buffer \<noteq> NoMatch then signatures_2byte buffer
      else if signatures_3byte buffer \<noteq> NoMatch then signatures_3byte buffer
      else if signatures_4byte_a buffer \<noteq> NoMatch then signatures_4byte_a buffer
      else if signatures_4byte_b buffer \<noteq> NoMatch then signatures_4byte_b buffer
      else if signatures_4byte_c buffer \<noteq> NoMatch then signatures_4byte_c buffer
      else if signatures_5byte buffer \<noteq> NoMatch then signatures_5byte buffer
      else if signatures_6byte buffer \<noteq> NoMatch then signatures_6byte buffer
      else if signatures_7byte buffer \<noteq> NoMatch then signatures_7byte buffer
      else if signatures_8byte buffer \<noteq> NoMatch then signatures_8byte buffer
      else if signatures_9byte buffer \<noteq> NoMatch then signatures_9byte buffer
      else if signatures_12byte buffer \<noteq> NoMatch then signatures_12byte buffer
      else signatures_unsafe buffer)"

text \<open>The options of the peeks that fill the sample: \<open>{length: n, mayBeLess: true}\<close>.\<close>

definition sample_options :: "int \<Rightarrow> options" where
  "sample_options n = \<lparr>opt_length = Some n, opt_position = None, opt_mayBeLess = True\<rparr>"

text \<open>
  The probes of \<open>parse\<close>: the sample buffer is allocated and filled with 12 bytes; when
  no probe matches it is filled again with 256 bytes, then with 512. The result is the
  sample buffer and the branch chosen; \<open>NoMatch\<close> at the end is the end of \<open>parse\<close>.
\<close>

definition probe ::
  "(jsstring \<Rightarrow> bool option) \<Rightarrow> tokenizer \<Rightarrow> (byte list \<times> branch) promise" where
  "probe parse_files t =
     await (peekBuffer t (alloc minimumBytes) (sample_options 12)) (\<lambda>(n, buffer).
       if signatures_12 buffer \<noteq> NoMatch then Fulfilled (buffer, signatures_12 buffer)
       else
         await (peekBuffer t buffer (sample_options (min 256 (fileInfo_size t)))) (\<lambda>(n, buffer).
           if signatures_256 parse_files buffer \<noteq> NoMatch
           then Fulfilled (buffer, signatures_256 parse_files buffer)
           else
             await (peekBuffer t buffer (sample_options (min 512 (fileInfo_size t))))
               (\<lambda>(n, buffer). Fulfilled (buffer, signatures_512 buffer))))"

text \<open>
  Running the branch chosen. Two branches enter the detection again on the tokenizer
  they have advanced (\<open>Again\<close>): the UTF-8 byte-order mark by \<open>this.parse(tokenizer)\<close>
  and the ID3 header by \<open>fileTypeFromTokenizer(tokenizer)\<close>, which is \<open>parse\<close> on a new
  parser. Every other branch ends the detection (\<open>Done\<close>).
\<close>

datatype step = Done "fileType option promise" | Again tokenizer

definition perform :: "nat \<Rightarrow> byte list \<Rightarrow> tokenizer \<Rightarrow> branch \<Rightarrow> step" where
  "perform fuel buffer t b =
     (case b of
        Return r \<Rightarrow> Done (Fulfilled r)
      | Raise e \<Rightarrow> Done (Rejected e)
      | PostScript \<Rightarrow>
          Done (await (peekBuffer t buffer (sample_options 24)) (\<lambda>(n, buffer').
            if checkString buffer' ''PS-Adobe-'' 2 \<and> checkString buffer' '' EPSF-'' 14
            then Fulfilled (Some (FileType ''eps'' ''application/eps''))
            else Fulfilled (Some (FileType ''ps'' ''application/postscript''))))
      | Utf8Bom \<Rightarrow> Again (ignore 3 t)
      | Id3 \<Rightarrow>
          (case readToken (ignore 6 t) uint32SyncSafeToken of
             Fulfilled (id3HeaderLength, t') \<Rightarrow>
               if position t' + id3HeaderLength > fileInfo_size t'
               then Done (Fulfilled (Some (FileType ''mp3'' ''audio/mpeg'')))
               else Again (ignore id3HeaderLength t')
           | Rejected e \<Rightarrow> Done (Rejected e)
           | Pending \<Rightarrow> Done Pending)
      | Zip \<Rightarrow> Done (zip buffer t)
      | Ogg \<Rightarrow> Done (ogg t)
      | Pdf \<Rightarrow> Done (pdf t)
      | TiffIfd ifdOffset \<Rightarrow> Done (tiff_ifd ifdOffset t)
      | Ebml \<Rightarrow> Done (ebml t)
      | Ar \<Rightarrow> Done (ar t)
      | Png \<Rightarrow> Done (png t)
      | Asf \<Rightarrow> Done (asf fuel t)
      | Jp2 \<Rightarrow> Done (jp2 t)
      | NoMatch \<Rightarrow> Done (Fulfilled None))"

definition dispatch :: "(jsstring \<Rightarrow> bool option) \<Rightarrow> nat \<Rightarrow> tokenizer \<Rightarrow> step" where
  "dispatch parse_files fuel t =
     (case probe parse_files t of
        Fulfilled (buffer, b) \<Rightarrow> perform fuel buffer t b
      | Rejected e \<Rightarrow> Done (Rejected e)
      | Pending \<Rightarrow> Done Pending)"

lemma signatures_256_not_Utf8Bom: "signatures_256 parse_files buffer \<noteq> Utf8Bom"
  by (simp add: signatures_256_def found_def vcard_calendar_def asar_def split: option.splits)

lemma signatures_512_not_Utf8Bom: "signatures_512 buffer \<noteq> Utf8Bom"
  by (simp add: signatures_512_def found_def mpeg_audio_def)

lemma readTiffHeader_not_Utf8Bom: "readTiffHeader buffer e \<noteq> Utf8Bom"
  by (simp add: readTiffHeader_def found_def split: option.splits)

lemma signatures_12_Utf8Bom:
  assumes "signatures_12 buffer = Utf8Bom"
  shows "check buffer [0xEF, 0xBB, 0xBF] 0 None"
proof -
  have "signatures_2byte buffer \<noteq> Utf8Bom" "signatures_4byte_a buffer \<noteq> Utf8Bom"
    "signatures_4byte_b buffer \<noteq> Utf8Bom" "signatures_4byte_c buffer \<noteq> Utf8Bom"
    "signatures_5byte buffer \<noteq> Utf8Bom" "signatures_6byte buffer \<noteq> Utf8Bom"
    "signatures_7byte buffer \<noteq> Utf8Bom" "signatures_8byte buffer \<noteq> Utf8Bom"
    "signatures_9byte buffer \<noteq> Utf8Bom" "signatures_12byte buffer \<noteq> Utf8Bom"
    "signatures_unsafe buffer \<noteq> Utf8Bom"
    by (simp_all add: signatures_2byte_def signatures_4byte_a_def signatures_4byte_b_def
        signatures_4byte_c_def signatures_5byte_def signatures_6byte_def signatures_7byte_def
        signatures_8byte_def signatures_9byte_def signatures_12byte_def signatures_unsafe_def
        found_def tiff_little_endian_def tiff_big_endian_def readTiffHeader_not_Utf8Bom
        riff_def mpeg_program_stream_def)
  with assms have "signatures_3byte buffer = Utf8Bom"
    by (simp add: signatures_12_def split: if_splits)
  then show ?thesis
    by (simp add: signatures_3byte_def found_def split: if_splits)
qed

lemma sample_nonzero:
  assumes "peekBuffer t (alloc k) (sample_options m) = Fulfilled (n, buffer)"
    and "js_index buffer i = Some b" and "b \<noteq> 0"
  shows "position t < fileInfo_size t"
proof (rule ccontr)
  assume "\<not> position t < fileInfo_size t"
  then have "subarray (uint8Array t) (position t) (position t + n') = []" for n'
    by (simp add: subarray_def clamp_index_def fileInfo_size_def Let_def)
  with assms(1) have "buffer = alloc k"
    by (auto simp: peekBuffer_def normalizeOptions_def sample_options_def Let_def
        set_bytes_def truthy_def split: if_splits)
  with assms(2,3) show False
    by (auto simp: js_index_def alloc_def split: if_splits)
qed

lemma probe_Utf8Bom:
  assumes "probe parse_files t = Fulfilled (buffer, Utf8Bom)"
  shows "position t < fileInfo_size t"
proof -
  from assms obtain n b12 where
    pk: "peekBuffer t (alloc minimumBytes) (sample_options 12) = Fulfilled (n, b12)"
    and sig: "signatures_12 b12 = Utf8Bom"
    by (auto simp: probe_def await_eq_Fulfilled signatures_256_not_Utf8Bom
        signatures_512_not_Utf8Bom split: if_splits)
  have "js_index b12 0 = Some 0xEF"
    using signatures_12_Utf8Bom [OF sig]
    by (simp add: check_def underscore_check_def split: if_splits)
  then show ?thesis
    using sample_nonzero [OF pk] by simp
qed

lemma syncSafe_nonneg: "0 \<le> uint32SyncSafeToken_get buffer off"
proof -
  have "\<not> bit ((to_int32 a AND 0x7F) OR push_bit 7 (to_int32 b) OR push_bit 14 (to_int32 c)
            OR push_bit 21 (to_int32 d)) (LENGTH(32) - Suc 0)" for a b c d
    by (auto simp: to_int32_def bit_simps split: option.splits dest: bit_imp_le_length)
  then have "\<not> sint ((to_int32 a AND 0x7F) OR push_bit 7 (to_int32 b) OR push_bit 14 (to_int32 c)
            OR push_bit 21 (to_int32 d)) < 0" for a b c d
    unfolding bit_last_iff .
  then show ?thesis
    unfolding uint32SyncSafeToken_get_def by (simp add: not_less)
qed

lemma dispatch_Again:
  assumes "dispatch parse_files fuel t = Again t'"
  shows "remaining t' < remaining t"
proof -
  from assms obtain buffer b where
    pr: "probe parse_files t = Fulfilled (buffer, b)" and pf: "perform fuel buffer t b = Again t'"
    by (auto simp: dispatch_def split: promise.splits)
  from pf consider (bom) "b = Utf8Bom" "t' = ignore 3 t"
    | (id3) n t2 where "b = Id3" "readToken (ignore 6 t) uint32SyncSafeToken = Fulfilled (n, t2)"
        "t' = ignore n t2"
    by (auto simp: perform_def split: branch.splits promise.splits if_splits)
  then show ?thesis
  proof cases
    case bom
    with pr have "position t < fileInfo_size t"
      by (auto dest: probe_Utf8Bom)
    then show ?thesis
      unfolding bom by (intro remaining_ignore_less) simp_all
  next
    case id3
    have "remaining t2 < remaining (ignore 6 t)"
      using readToken_Fulfilled [OF id3(2)]
      by (simp add: remaining_def fileInfo_size_def uint32SyncSafeToken_def)
    moreover have "remaining (ignore 6 t) \<le> remaining t"
      by (rule remaining_ignore) simp
    moreover have "remaining t' \<le> remaining t2"
      unfolding id3 using readToken_Fulfilled(4) [OF id3(2)]
      by (intro remaining_ignore) (auto simp: uint32SyncSafeToken_def syncSafe_nonneg)
    ultimately show ?thesis by simp
  qed
qed

text \<open>\<open>FileTypeParser.parse(tokenizer)\<close>.\<close>

function parse :: "(jsstring \<Rightarrow> bool option) \<Rightarrow> nat \<Rightarrow> tokenizer \<Rightarrow> fileType option promise" where
  "parse parse_files fuel t =
     (case dispatch parse_files fuel t of
        Done p \<Rightarrow> p
      | Again t' \<Rightarrow> parse parse_files fuel t')"
  by pat_completeness auto
termination
  by (relation "measure (\<lambda>(parse_files, fuel, t). remaining t)") (auto dest: dispatch_Again)

declare parse.simps [simp del]


section \<open>The entry points\<close>

text \<open>
  \<open>fileTypeFromTokenizer\<close> is
  \<^verbatim>\<open>try { return new FileTypeParser().parse(tokenizer); } catch (error) { ... }\<close>.
  Evaluating the call of an \<open>async\<close> function never throws: whatever happens in its
  body settles the promise it returns, so the call completes normally with that
  promise. The promise is returned without \<open>await\<close>; the \<open>catch\<close> clause handles a
  throw of the \<open>try\<close> block only.
\<close>

datatype 'a completion = Normal 'a | Throw error

definition call_async :: "'a promise \<Rightarrow> 'a promise completion" where
  "call_async p = Normal p"

definition fileTypeFromTokenizer ::
  "(jsstring \<Rightarrow> bool option) \<Rightarrow> nat \<Rightarrow> tokenizer \<Rightarrow> fileType option promise" where
  "fileTypeFromTokenizer parse_files fuel tokenizer =
     (case call_async (parse parse_files fuel tokenizer) of
        Normal p \<Rightarrow> p
      | Throw e \<Rightarrow> if e \<noteq> EndOfStreamError then Rejected e else Fulfilled None)"

text \<open>\<open>fileTypeFromBuffer(input)\<close> for an input that is a \<open>Uint8Array\<close>.\<close>

definition fileTypeFromBuffer ::
  "(jsstring \<Rightarrow> bool option) \<Rightarrow> nat \<Rightarrow> byte list \<Rightarrow> fileType option promise" where
  "fileTypeFromBuffer parse_files fuel input =
     (if \<not> length input > 1 then Fulfilled None
      else fileTypeFromTokenizer parse_files fuel (fromBuffer input))"

text \<open>
  \<open>fileTypeFromFile(path)\<close> starts with \<open>await undefined(path)\<close>: the callee is the value
  \<open>undefined\<close>, and calling a value that is not a function throws a \<open>TypeError\<close>. The
  \<open>finally\<close> clause closes the tokenizer, which does nothing for this tokenizer.
\<close>

datatype 'f callee = Undefined | Function 'f

definition call_value :: "('a \<Rightarrow> 'b) callee \<Rightarrow> 'a \<Rightarrow> 'b completion" where
  "call_value f x = (case f of Undefined \<Rightarrow> Throw TypeError | Function g \<Rightarrow> Normal (g x))"

definition fileTypeFromFile ::
  "(jsstring \<Rightarrow> bool option) \<Rightarrow> nat \<Rightarrow> string \<Rightarrow> fileType option promise" where
  "fileTypeFromFile parse_files fuel path =
     (case call_value (Undefined :: (string \<Rightarrow> tokenizer promise) callee) path of
        Throw e \<Rightarrow> Rejected e
      | Normal p \<Rightarrow> await p (\<lambda>tokenizer. fileTypeFromTokenizer parse_files fuel tokenizer))"

section \<open>The tokenizer on well-formed states\<close>

text \<open>
  What the proofs below use: a tokenizer is well-formed when its position lies within
  the array (every state the detector reaches from \<open>fromBuffer\<close> is); on such a state
  each read is a \<open>take\<close> of the bytes not yet passed.
\<close>

definition wf_tokenizer :: "tokenizer \<Rightarrow> bool" where
  "wf_tokenizer t = (0 \<le> position t \<and> position t \<le> fileInfo_size t)"

definition bytesLeft :: "tokenizer \<Rightarrow> int" where
  "bytesLeft t = fileInfo_size t - position t"

definition rest :: "tokenizer \<Rightarrow> byte list" where
  "rest t = drop (nat (position t)) (uint8Array t)"

definition advance :: "int \<Rightarrow> tokenizer \<Rightarrow> tokenizer" where
  "advance n t = t\<lparr>position := position t + n\<rparr>"

lemma length_alloc [simp]: "length (alloc n) = n"
  by (simp add: alloc_def)

lemma drop_alloc [simp]: "drop k (alloc n) = alloc (n - k)"
  by (simp add: alloc_def)

lemma alloc_0 [simp]: "alloc 0 = []"
  by (simp add: alloc_def)

lemma js_index_append_alloc:
  "js_index (xs @ alloc n) i =
     (if i < length xs then Some (xs ! i) else if i < length xs + n then Some 0 else None)"
  by (simp add: js_index_def nth_append alloc_def)

lemma js_index_alloc: "js_index (alloc n) i = (if i < n then Some 0 else None)"
  by (simp add: js_index_def alloc_def)

lemma length_rest: "wf_tokenizer t \<Longrightarrow> int (length (rest t)) = bytesLeft t"
  by (auto simp: rest_def bytesLeft_def wf_tokenizer_def fileInfo_size_def)

lemma subarray_wf:
  assumes "wf_tokenizer t" and "0 \<le> k" and "k \<le> bytesLeft t"
  shows "subarray (uint8Array t) (position t) (position t + k) = take (nat k) (rest t)"
  using assms
  by (simp add: subarray_def clamp_index_def rest_def wf_tokenizer_def bytesLeft_def
      fileInfo_size_def Let_def nat_diff_distrib nat_add_distrib min_def)

lemma wf_fromBuffer [simp]: "wf_tokenizer (fromBuffer xs)"
  by (simp add: wf_tokenizer_def fromBuffer_def fileInfo_size_def)

lemma rest_fromBuffer [simp]: "rest (fromBuffer xs) = xs"
  by (simp add: rest_def fromBuffer_def)

lemma bytesLeft_fromBuffer [simp]: "bytesLeft (fromBuffer xs) = int (length xs)"
  by (simp add: bytesLeft_def fromBuffer_def fileInfo_size_def)

lemma wf_advance: "wf_tokenizer t \<Longrightarrow> 0 \<le> n \<Longrightarrow> n \<le> bytesLeft t \<Longrightarrow> wf_tokenizer (advance n t)"
  by (simp add: wf_tokenizer_def advance_def bytesLeft_def fileInfo_size_def)

lemma bytesLeft_advance [simp]: "bytesLeft (advance n t) = bytesLeft t - n"
  by (simp add: advance_def bytesLeft_def fileInfo_size_def)

lemma rest_advance:
  "wf_tokenizer t \<Longrightarrow> 0 \<le> n \<Longrightarrow> rest (advance n t) = drop (nat n) (rest t)"
  by (simp add: rest_def advance_def wf_tokenizer_def nat_add_distrib add.commute)

lemma advance_advance [simp]: "advance m (advance n t) = advance (n + m) t"
  by (simp add: advance_def)

lemma advance_0 [simp]: "advance 0 t = t"
  by (simp add: advance_def)

lemma ignore_wf:
  "0 \<le> n \<Longrightarrow> ignore n t = advance (min n (bytesLeft t)) t"
  by (simp add: ignore_def advance_def bytesLeft_def Let_def min_def)

lemma peekBuffer_sample:
  assumes "wf_tokenizer t" and "0 < m" and "nat m \<le> length array"
  shows "peekBuffer t array (sample_options m) =
           Fulfilled (min (bytesLeft t) m,
                      take (nat m) (rest t) @ drop (min (length (rest t)) (nat m)) array)"
proof -
  define k where "k = min (bytesLeft t) m"
  have k: "0 \<le> k" "k \<le> bytesLeft t" "nat k \<le> length array"
    using assms by (auto simp: k_def wf_tokenizer_def bytesLeft_def)
  have sub: "subarray (uint8Array t) (position t) (position t + k) = take (nat k) (rest t)"
    using assms(1) k by (intro subarray_wf)
  have len: "length (take (nat k) (rest t)) = nat k"
    using length_rest [OF assms(1)] k by simp
  have tk: "take (nat k) (rest t) = take (nat m) (rest t)"
    using length_rest [OF assms(1)] by (auto simp: k_def min_def)
  have mn: "min (length (rest t)) (nat m) = nat k"
    using length_rest [OF assms(1)] assms(2) by (auto simp: k_def min_def)
  show ?thesis
    using assms(2) k len sub
    unfolding peekBuffer_def normalizeOptions_def sample_options_def
    by (simp add: truthy_def Let_def set_bytes_def k_def [symmetric] bytesLeft_def [symmetric]
        fileInfo_size_def [symmetric] tk mn)
qed



lemma js_index_Nil: "js_index [] i = None"
  by (simp add: js_index_def)

lemma js_index_Cons_0: "js_index (x # xs) 0 = Some x"
  by (simp add: js_index_def)

lemma js_index_Cons_Suc: "js_index (x # xs) (Suc i) = js_index xs i"
  by (simp add: js_index_def)

lemma js_index_Cons_numeral: "js_index (x # xs) (numeral k) = js_index xs (pred_numeral k)"
  by (simp add: js_index_def numeral_eq_Suc)

lemmas js_index_simps = js_index_Nil js_index_Cons_0 js_index_Cons_Suc js_index_Cons_numeral
  js_index_alloc


lemma wf_ignore: "wf_tokenizer t \<Longrightarrow> 0 \<le> n \<Longrightarrow> wf_tokenizer (ignore n t)"
  by (auto simp: wf_tokenizer_def ignore_def Let_def fileInfo_size_def)

lemma readBuffer_no_position:
  "opt_position opts = None \<Longrightarrow>
   readBuffer t array opts =
     (case peekBuffer t array opts of
        Fulfilled (n, a) \<Rightarrow> Fulfilled (n, a, advance n t)
      | Rejected e \<Rightarrow> Rejected e
      | Pending \<Rightarrow> Pending)"
  by (simp add: readBuffer_def truthy_def advance_def split: promise.splits)

lemma normalizeOptions_position_current:
  "opt_position opts = Some (position t) \<Longrightarrow>
   normalizeOptions t array opts = normalizeOptions t array (opts\<lparr>opt_position := None\<rparr>)"
  by (simp add: normalizeOptions_def truthy_def)

lemma readBuffer_position_current:
  assumes "opt_position opts = Some (position t)"
  shows "readBuffer t array opts = readBuffer t array (opts\<lparr>opt_position := None\<rparr>)"
proof -
  have "peekBuffer t array opts = peekBuffer t array (opts\<lparr>opt_position := None\<rparr>)"
    unfolding peekBuffer_def normalizeOptions_position_current [OF assms] ..
  moreover have "(if truthy (opt_position opts) then t\<lparr>position := the (opt_position opts)\<rparr>
                  else t) = t"
    using assms by simp
  ultimately show ?thesis
    using assms by (simp add: readBuffer_def truthy_def)
qed

lemma peekBuffer_mayBeLess:
  assumes "wf_tokenizer t"
  shows "peekBuffer t array (no_options\<lparr>opt_mayBeLess := True\<rparr>) =
           Fulfilled (min (bytesLeft t) (int (length array)),
                      take (length array) (rest t) @ drop (length (rest t)) array)"
proof -
  define k where "k = min (bytesLeft t) (int (length array))"
  have k: "0 \<le> k" "k \<le> bytesLeft t" "nat k \<le> length array"
    using assms by (auto simp: k_def wf_tokenizer_def bytesLeft_def)
  have sub: "subarray (uint8Array t) (position t) (position t + k) = take (nat k) (rest t)"
    using assms k by (intro subarray_wf)
  have len: "length (take (nat k) (rest t)) = nat k"
    using length_rest [OF assms] k by simp
  have tk: "take (nat k) (rest t) = take (length array) (rest t)"
    using length_rest [OF assms] by (auto simp: k_def min_def)
  have lr: "length (rest t) = nat (bytesLeft t)"
    using length_rest [OF assms] by linarith
  have dr: "drop (nat k) array = drop (length (rest t)) array"
    using lr by (auto simp: k_def min_def)
  show ?thesis
    using k len sub
    unfolding peekBuffer_def normalizeOptions_def no_options_def
    by (simp add: truthy_def Let_def set_bytes_def k_def [symmetric] bytesLeft_def [symmetric]
        fileInfo_size_def [symmetric] tk dr)
qed

lemma readBuffer_mayBeLess:
  assumes "wf_tokenizer t"
  shows "readBuffer t array (no_options\<lparr>opt_mayBeLess := True\<rparr>) =
           Fulfilled (min (bytesLeft t) (int (length array)),
                      take (length array) (rest t) @ drop (length (rest t)) array,
                      advance (min (bytesLeft t) (int (length array))) t)"
proof -
  have np: "opt_position (no_options\<lparr>opt_mayBeLess := True\<rparr>) = None"
    by (simp add: no_options_def)
  show ?thesis
    unfolding readBuffer_no_position [OF np] peekBuffer_mayBeLess [OF assms] by simp
qed

lemma peekBuffer_exact:
  assumes "wf_tokenizer t" and "0 < m" and "nat m \<le> length array"
    and "opt_position opts = None \<or> opt_position opts = Some (position t)"
    and "opt_length opts = Some m" and "\<not> opt_mayBeLess opts"
  shows "peekBuffer t array opts =
           (if m \<le> bytesLeft t
            then Fulfilled (m, take (nat m) (rest t) @ drop (nat m) array)
            else Rejected EndOfStreamError)"
proof (cases "m \<le> bytesLeft t")
  case True
  have sub: "subarray (uint8Array t) (position t) (position t + m) = take (nat m) (rest t)"
    using assms(1,2) True by (intro subarray_wf) simp_all
  have len: "length (take (nat m) (rest t)) = nat m"
    using length_rest [OF assms(1)] True by simp
  have pos: "(if truthy (opt_position opts) then the (opt_position opts) else position t)
             = position t"
    using assms(4) by (auto simp: truthy_def)
  show ?thesis
    using True assms(2,3,5,6) len sub
    unfolding peekBuffer_def normalizeOptions_def pos
    using assms(4)
    by (auto simp: truthy_def Let_def set_bytes_def bytesLeft_def fileInfo_size_def min_def)
next
  case False
  have pos: "(if truthy (opt_position opts) then the (opt_position opts) else position t)
             = position t"
    using assms(4) by (auto simp: truthy_def)
  show ?thesis
    using False assms(2,3,5,6)
    unfolding peekBuffer_def normalizeOptions_def pos
    using assms(4)
    by (auto simp: truthy_def Let_def bytesLeft_def fileInfo_size_def min_def)
qed

lemma readBuffer_length:
  assumes "wf_tokenizer t" and "0 < m" and "nat m \<le> length array"
  shows "readBuffer t array (no_options\<lparr>opt_length := Some m\<rparr>) =
           (if m \<le> bytesLeft t
            then Fulfilled (m, take (nat m) (rest t) @ drop (nat m) array, advance m t)
            else Rejected EndOfStreamError)"
  using peekBuffer_exact [OF assms, of "no_options\<lparr>opt_length := Some m\<rparr>"]
  by (simp add: readBuffer_def truthy_def no_options_def advance_def)

lemma readBuffer_alloc:
  assumes "wf_tokenizer t"
  shows "readBuffer t (alloc n) no_options =
           (if int n \<le> bytesLeft t
            then Fulfilled (int n, take n (rest t), advance (int n) t)
            else Rejected EndOfStreamError)"
proof (cases "n = 0")
  case True
  then show ?thesis
    using assms
    by (simp add: readBuffer_def peekBuffer_def normalizeOptions_def no_options_def truthy_def
        Let_def set_bytes_def subarray_def bytesLeft_def wf_tokenizer_def fileInfo_size_def)
next
  case False
  have "peekBuffer t (alloc n) no_options =
          (if int n \<le> bytesLeft t
           then Fulfilled (int n, take n (rest t))
           else Rejected EndOfStreamError)"
  proof (cases "int n \<le> bytesLeft t")
    case True
    have sub: "subarray (uint8Array t) (position t) (position t + int n) = take n (rest t)"
      using subarray_wf [OF assms, of "int n"] True by simp
    have len: "length (take n (rest t)) = n"
      using length_rest [OF assms] True by simp
    show ?thesis
      using True len sub
      unfolding peekBuffer_def normalizeOptions_def no_options_def
      by (simp add: truthy_def Let_def set_bytes_def bytesLeft_def fileInfo_size_def min_def)
  next
    case False
    then show ?thesis
      unfolding peekBuffer_def normalizeOptions_def no_options_def
      by (simp add: truthy_def Let_def bytesLeft_def fileInfo_size_def min_def)
  qed
  then show ?thesis
    by (simp add: readBuffer_def truthy_def no_options_def advance_def)
qed

lemma readToken_wf:
  assumes "wf_tokenizer t"
  shows "readToken t token =
           (if int (len token) \<le> bytesLeft t then
              (case get token (take (len token) (rest t)) 0 of
                 None \<Rightarrow> Rejected RangeError
               | Some v \<Rightarrow> Fulfilled (v, advance (int (len token)) t))
            else Rejected EndOfStreamError)"
proof -
  have "readBuffer t (alloc (len token)) (no_options\<lparr>opt_position := Some (position t)\<rparr>)
          = readBuffer t (alloc (len token)) no_options"
    by (subst readBuffer_position_current) (simp_all add: no_options_def)
  then show ?thesis
    by (simp add: readToken_def readBuffer_alloc [OF assms] split: option.splits)
qed

lemma peekNumber_UINT8:
  assumes "wf_tokenizer t"
  shows "peekNumber t UINT8 =
           (if 1 \<le> bytesLeft t then Fulfilled (uint (hd (rest t)))
            else Rejected EndOfStreamError)"
proof (cases "1 \<le> bytesLeft t")
  case True
  then obtain b bs where r: "rest t = b # bs"
    using length_rest [OF assms] by (cases "rest t") auto
  have "peekBuffer t (alloc 8) (no_options\<lparr>opt_length := Some 1\<rparr>)
          = Fulfilled (1, take (nat 1) (rest t) @ drop (nat 1) (alloc 8))"
    using peekBuffer_exact [OF assms, of 1 "alloc 8" "no_options\<lparr>opt_length := Some 1\<rparr>"] True
    by (simp add: no_options_def)
  then show ?thesis
    using True r
    by (simp add: peekNumber_def UINT8_def dv_bytes_def be_value_def)
next
  case False
  have "peekBuffer t (alloc 8) (no_options\<lparr>opt_length := Some 1\<rparr>) = Rejected EndOfStreamError"
    using peekBuffer_exact [OF assms, of 1 "alloc 8" "no_options\<lparr>opt_length := Some 1\<rparr>"] False
    by (simp add: no_options_def)
  then show ?thesis
    using False by (simp add: peekNumber_def UINT8_def)
qed


lemma take_alloc [simp]: "take k (alloc n) = alloc (min k n)"
  by (simp add: alloc_def)

lemma utf8_decode_replicate_0: "utf8_decode (replicate n 0) = replicate n 0"
  by (induction n) simp_all

lemma utf8_decode_alloc: "utf8_decode (alloc n) = replicate n 0"
  by (simp add: alloc_def utf8_decode_replicate_0)

lemma fileInfo_size_fromBuffer [simp]: "fileInfo_size (fromBuffer xs) = int (length xs)"
  by (simp add: fileInfo_size_def fromBuffer_def)

lemmas probe_defs = signatures_12_def signatures_2byte_def signatures_3byte_def
  signatures_4byte_a_def signatures_4byte_b_def signatures_4byte_c_def signatures_5byte_def
  signatures_6byte_def signatures_7byte_def signatures_8byte_def signatures_9byte_def
  signatures_12byte_def signatures_unsafe_def signatures_256_def signatures_512_def
  tiff_little_endian_def tiff_big_endian_def readTiffHeader_def riff_def
  mpeg_program_stream_def vcard_calendar_def asar_def mpeg_audio_def
  check_def checkString_def stringToBytes_def underscore_check_def found_def

lemmas run_defs = fileTypeFromBuffer_def fileTypeFromTokenizer_def call_async_def parse.simps
  dispatch_def probe_def perform_def peekBuffer_sample minimumBytes_def


lemma await_weak_cong [cong]: "p = q \<Longrightarrow> await p k = await q k"
  by simp

lemmas tokenizer_simps = wf_advance wf_ignore ignore_wf rest_advance readBuffer_alloc readToken_wf
  peekNumber_UINT8 readBuffer_length readBuffer_mayBeLess peekBuffer_mayBeLess


lemma replace_nul_replicate: "replace_nul_to_end (replicate n 0) = []"
  by (cases n) (simp_all add: list_ex_iff lineTerminator_def)

lemmas tar_defs = tarHeaderChecksumMatches_def toString_def decode_def utf8_decode_alloc
  replace_nul_replicate trim_def parseInt8_def Let_def

lemmas token_defs = UINT8_def UINT16_LE_def UINT16_BE_def UINT32_LE_def UINT32_BE_def
  INT32_BE_def UINT64_LE_def StringType_def uint32SyncSafeToken_def dv_bytes_def be_value_def

lemma check_from_iff:
  "check_from index buffer headers off mask_opt =
     (\<forall>i<length headers. (case mask_opt of
        Some m \<Rightarrow> headers ! i = js_bitand (js_index m (index + i)) (js_index buffer (index + i + off))
      | None \<Rightarrow> js_index buffer (index + i + off) = Some (headers ! i)))"
proof (induction headers arbitrary: index)
  case Nil
  show ?case by simp
next
  case (Cons h hs)
  have eq: "(Some h = js_index buffer (index + off)) = (js_index buffer (index + off) = Some h)"
    by auto
  show ?case
    using Cons.IH [of "Suc index"]
    by (cases mask_opt) (simp_all add: All_less_Suc2 eq)
qed

lemma fileTypeFromTokenizer_is_parse:
  "fileTypeFromTokenizer parse_files fuel t = parse parse_files fuel t"
  by (simp add: fileTypeFromTokenizer_def call_async_def)

section \<open>Every result lies in the catalog\<close>

definition in_catalog :: "fileType \<Rightarrow> bool" where
  "in_catalog r = (ext r \<in> supportedExtensions \<and> mime r \<in> supportedMimeTypes)"

lemma in_catalog_FileType:
  "e \<in> set extensions \<Longrightarrow> m \<in> set mimeTypes \<Longrightarrow> in_catalog (FileType e m)"
  by (simp add: in_catalog_def supportedExtensions_def supportedMimeTypes_def)

lemma in_catalog_if: "in_catalog a \<Longrightarrow> in_catalog b \<Longrightarrow> in_catalog (if c then a else b)"
  by simp

fun catalogued :: "branch \<Rightarrow> bool" where
  "catalogued (Return (Some r)) = in_catalog r"
| "catalogued b = True"

lemma catalogued_if: "catalogued a \<Longrightarrow> catalogued b \<Longrightarrow> catalogued (if c then a else b)"
  by simp

lemma catalogued_found:
  "e \<in> set extensions \<Longrightarrow> m \<in> set mimeTypes \<Longrightarrow> catalogued (found e m)"
  by (simp add: found_def in_catalog_FileType)

lemma catalogued_case_option:
  "catalogued a \<Longrightarrow> (\<And>v. catalogued (f v)) \<Longrightarrow> catalogued (case x of None \<Rightarrow> a | Some v \<Rightarrow> f v)"
  by (cases x) simp_all

lemmas catalogued_intros = catalogued_if catalogued_found catalogued_case_option

lemma in_catalog_ftyp: "in_catalog (ftyp_fileType brandMajor)"
  unfolding ftyp_fileType_def
  by (intro in_catalog_if in_catalog_FileType) (simp_all add: extensions_def mimeTypes_def)

lemma catalogued_readTiffHeader: "catalogued (readTiffHeader buffer bigEndian)"
  unfolding readTiffHeader_def
  by (intro catalogued_intros) (simp_all add: extensions_def mimeTypes_def)

lemma catalogued_blocks:
  "catalogued (tiff_little_endian buffer)" "catalogued (tiff_big_endian buffer)"
  "catalogued (riff buffer)" "catalogued (mpeg_program_stream buffer)"
  "catalogued (vcard_calendar buffer)" "catalogued (asar parse_files buffer)"
  "catalogued (mpeg_audio buffer)"
  unfolding tiff_little_endian_def tiff_big_endian_def riff_def mpeg_program_stream_def
    vcard_calendar_def asar_def mpeg_audio_def
  by (intro catalogued_intros catalogued_readTiffHeader; simp add: extensions_def mimeTypes_def)+

lemma catalogued_2byte: "catalogued (signatures_2byte buffer)"
  unfolding signatures_2byte_def
  by (intro catalogued_intros) (simp_all add: extensions_def mimeTypes_def)

lemma catalogued_3byte: "catalogued (signatures_3byte buffer)"
  unfolding signatures_3byte_def
  by (intro catalogued_intros) (simp_all add: extensions_def mimeTypes_def)

lemma catalogued_4byte_a: "catalogued (signatures_4byte_a buffer)"
  unfolding signatures_4byte_a_def
  by (intro catalogued_intros) (simp_all add: extensions_def mimeTypes_def in_catalog_ftyp)

lemma catalogued_4byte_b: "catalogued (signatures_4byte_b buffer)"
  unfolding signatures_4byte_b_def
  by (intro catalogued_intros catalogued_blocks) (simp_all add: extensions_def mimeTypes_def)

lemma catalogued_4byte_c: "catalogued (signatures_4byte_c buffer)"
  unfolding signatures_4byte_c_def
  by (intro catalogued_intros catalogued_blocks) (simp_all add: extensions_def mimeTypes_def)

lemma catalogued_5byte: "catalogued (signatures_5byte buffer)"
  unfolding signatures_5byte_def
  by (intro catalogued_intros catalogued_blocks) (simp_all add: extensions_def mimeTypes_def)

lemma catalogued_6byte: "catalogued (signatures_6byte buffer)"
  unfolding signatures_6byte_def
  by (intro catalogued_intros) (simp_all add: extensions_def mimeTypes_def)

lemma catalogued_7byte: "catalogued (signatures_7byte buffer)"
  unfolding signatures_7byte_def
  by (intro catalogued_intros) (simp_all add: extensions_def mimeTypes_def)

lemma catalogued_8byte: "catalogued (signatures_8byte buffer)"
  unfolding signatures_8byte_def
  by (intro catalogued_intros) (simp_all add: extensions_def mimeTypes_def)

lemma catalogued_9byte: "catalogued (signatures_9byte buffer)"
  unfolding signatures_9byte_def
  by (intro catalogued_intros) (simp_all add: extensions_def mimeTypes_def)

lemma catalogued_12byte: "catalogued (signatures_12byte buffer)"
  unfolding signatures_12byte_def
  by (intro catalogued_intros) (simp_all add: extensions_def mimeTypes_def)

lemma catalogued_unsafe: "catalogued (signatures_unsafe buffer)"
  unfolding signatures_unsafe_def
  by (intro catalogued_intros) (simp_all add: extensions_def mimeTypes_def)

lemma catalogued_256: "catalogued (signatures_256 parse_files buffer)"
  unfolding signatures_256_def
  by (intro catalogued_intros catalogued_blocks) (simp_all add: extensions_def mimeTypes_def)

lemma catalogued_512: "catalogued (signatures_512 buffer)"
  unfolding signatures_512_def
  by (intro catalogued_intros catalogued_blocks) (simp_all add: extensions_def mimeTypes_def)

lemma catalogued_12: "catalogued (signatures_12 buffer)"
  unfolding signatures_12_def
  by (intro catalogued_if catalogued_2byte catalogued_3byte catalogued_4byte_a
      catalogued_4byte_b catalogued_4byte_c catalogued_5byte catalogued_6byte catalogued_7byte
      catalogued_8byte catalogued_9byte catalogued_12byte catalogued_unsafe)

definition catalogued_promise :: "fileType option promise \<Rightarrow> bool" where
  "catalogued_promise p = (case p of Fulfilled (Some r) \<Rightarrow> in_catalog r | _ \<Rightarrow> True)"

lemma cp_simps [simp]:
  "catalogued_promise (Fulfilled (Some r)) = in_catalog r"
  "catalogued_promise (Fulfilled None)" "catalogued_promise (Rejected e)"
  "catalogued_promise Pending"
  by (simp_all add: catalogued_promise_def)

lemma cp_FileType:
  "e \<in> set extensions \<Longrightarrow> m \<in> set mimeTypes \<Longrightarrow>
   catalogued_promise (Fulfilled (Some (FileType e m)))"
  by (simp add: in_catalog_FileType)

lemma cp_if:
  "catalogued_promise a \<Longrightarrow> catalogued_promise b \<Longrightarrow> catalogued_promise (if c then a else b)"
  by simp

lemma cp_await: "(\<And>v. catalogued_promise (k v)) \<Longrightarrow> catalogued_promise (await p k)"
  by (cases p) simp_all

lemma cp_case_prod:
  "(\<And>a b. catalogued_promise (f a b)) \<Longrightarrow> catalogued_promise (case x of (a, b) \<Rightarrow> f a b)"
  by (cases x) simp

lemma cp_case_option:
  "catalogued_promise a \<Longrightarrow> (\<And>v. catalogued_promise (f v)) \<Longrightarrow>
   catalogued_promise (case x of None \<Rightarrow> a | Some v \<Rightarrow> f v)"
  by (cases x) simp_all

lemma cp_case_prod_app:
  "(\<And>a b. catalogued_promise (f a b y)) \<Longrightarrow>
   catalogued_promise ((case x of (a, b) \<Rightarrow> f a b) y)"
  by (cases x) simp

lemmas cp_intros = cp_FileType cp_if cp_await cp_case_prod cp_case_prod_app cp_case_option
  cp_simps(2,3,4)

lemma cp_ogg: "catalogued_promise (ogg t)"
  unfolding ogg_def
  by (intro cp_intros) (simp_all add: extensions_def mimeTypes_def)

lemma cp_pdf: "catalogued_promise (pdf t)"
  unfolding pdf_def Let_def
  by (intro cp_intros) (simp_all add: extensions_def mimeTypes_def)

lemma cp_ar: "catalogued_promise (ar t)"
  unfolding ar_def
  by (intro cp_intros) (simp_all add: extensions_def mimeTypes_def)

lemma cp_jp2: "catalogued_promise (jp2 t)"
  unfolding jp2_def
  by (intro cp_intros) (simp_all add: extensions_def mimeTypes_def)

lemma cp_ebml: "catalogued_promise (ebml t)"
  unfolding ebml_def
  by (intro cp_intros) (simp_all add: extensions_def mimeTypes_def)

lemma cp_readTiffTags: "catalogued_promise (readTiffTags k t bigEndian)"
proof (induction k arbitrary: t)
  case 0
  show ?case by simp
next
  case (Suc k)
  have "in_catalog r" if "readTiffTag t bigEndian = Fulfilled (Some r, t')" for r t'
    using that
    by (auto simp: readTiffTag_def await_eq_Fulfilled in_catalog_FileType extensions_def
        mimeTypes_def split: if_splits)
  then show ?case
    using Suc.IH
    by (cases "readTiffTag t bigEndian") (auto split: option.splits)
qed

lemma cp_tiff_ifd: "catalogued_promise (tiff_ifd ifdOffset t)"
proof -
  have tif: "in_catalog (FileType ''tif'' ''image/tiff'')"
    by (intro in_catalog_FileType) (simp_all add: extensions_def mimeTypes_def)
  have "catalogued_promise (readTiffIFD (ignore ifdOffset t) False)"
    unfolding readTiffIFD_def by (intro cp_intros cp_readTiffTags)
  then show ?thesis
    using tif
    by (cases "readTiffIFD (ignore ifdOffset t) False")
      (auto simp: tiff_ifd_def split: option.splits)
qed

text \<open>The same for one pass of a loop body.\<close>

definition catalogued_pass :: "(fileType option, 's) iteration promise \<Rightarrow> bool" where
  "catalogued_pass p = (case p of Fulfilled (Break (Some r)) \<Rightarrow> in_catalog r | _ \<Rightarrow> True)"

lemma pass_simps [simp]:
  "catalogued_pass (Fulfilled (Break (Some r))) = in_catalog r"
  "catalogued_pass (Fulfilled (Break None))" "catalogued_pass (Fulfilled (Continue s))"
  "catalogued_pass (Rejected e)" "catalogued_pass Pending"
  by (simp_all add: catalogued_pass_def)

lemma pass_FileType:
  "e \<in> set extensions \<Longrightarrow> m \<in> set mimeTypes \<Longrightarrow>
   catalogued_pass (Fulfilled (Break (Some (FileType e m))))"
  by (simp add: in_catalog_FileType)

lemma pass_if:
  "catalogued_pass a \<Longrightarrow> catalogued_pass b \<Longrightarrow> catalogued_pass (if c then a else b)"
  by simp

lemma pass_await: "(\<And>v. catalogued_pass (k v)) \<Longrightarrow> catalogued_pass (await p k)"
  by (cases p) simp_all

lemma pass_case_prod:
  "(\<And>a b. catalogued_pass (f a b)) \<Longrightarrow> catalogued_pass (case x of (a, b) \<Rightarrow> f a b)"
  by (cases x) simp

lemma pass_case_option:
  "catalogued_pass a \<Longrightarrow> (\<And>v. catalogued_pass (f v)) \<Longrightarrow>
   catalogued_pass (case x of None \<Rightarrow> a | Some v \<Rightarrow> f v)"
  by (cases x) simp_all

lemma pass_case_prod_app:
  "(\<And>a b. catalogued_pass (f a b y)) \<Longrightarrow>
   catalogued_pass ((case x of (a, b) \<Rightarrow> f a b) y)"
  by (cases x) simp

lemma pass_Break [simp]: "catalogued_pass (Fulfilled (Break x)) = catalogued_promise (Fulfilled x)"
  by (cases x) simp_all

lemmas pass_intros = pass_FileType pass_if pass_await pass_case_prod pass_case_prod_app
  pass_case_option pass_simps(2,3,4,5)

lemma pass_png_chunk: "catalogued_pass (png_chunk t)"
  unfolding png_chunk_def
  by (intro pass_intros) (simp_all add: extensions_def mimeTypes_def)

lemma cp_png_loop: "catalogued_promise (png_loop t)"
proof (induction t rule: png_loop.induct)
  case (1 t)
  have png: "in_catalog (FileType ''png'' ''image/png'')"
    by (intro in_catalog_FileType) (simp_all add: extensions_def mimeTypes_def)
  show ?case
    using pass_png_chunk [of t] "1.IH" png
    by (subst png_loop.simps) (auto split: promise.splits iteration.splits option.splits)
qed

lemma cp_png: "catalogued_promise (png t)"
  by (simp add: png_def cp_png_loop)

lemma pass_asf_object: "catalogued_pass (asf_object t)"
  unfolding asf_object_def Let_def
  by (intro pass_intros) (simp_all add: extensions_def mimeTypes_def)

lemma cp_asf_loop: "catalogued_promise (asf_loop fuel t)"
proof (induction fuel arbitrary: t)
  case 0
  show ?case
    by (simp add: in_catalog_FileType extensions_def mimeTypes_def)
next
  case (Suc fuel)
  have asf: "in_catalog (FileType ''asf'' ''application/vnd.ms-asf'')"
    by (intro in_catalog_FileType) (simp_all add: extensions_def mimeTypes_def)
  show ?case
    using pass_asf_object [of t] Suc.IH asf
    by (cases "asf_object t") (auto split: iteration.splits option.splits)
qed

lemma cp_asf: "catalogued_promise (asf fuel t)"
  by (simp add: asf_def cp_asf_loop)

lemma zip_office_in_catalog: "zip_office filename = Some r \<Longrightarrow> in_catalog r"
  by (auto simp: zip_office_def Let_def in_catalog_FileType extensions_def mimeTypes_def
      split: if_splits)

lemma zip_mimetype_in_catalog: "zip_mimetype m = Some r \<Longrightarrow> in_catalog r"
  by (auto simp: zip_mimetype_def in_catalog_FileType extensions_def mimeTypes_def
      split: if_splits)

lemma pass_Break_office: "catalogued_pass (Fulfilled (Break (zip_office filename)))"
  by (cases "zip_office filename") (simp_all add: zip_office_in_catalog)

lemma pass_Break_mimetype: "catalogued_pass (Fulfilled (Break (zip_mimetype m)))"
  by (cases "zip_mimetype m") (simp_all add: zip_mimetype_in_catalog)

lemma pass_zip_skip: "catalogued_pass (zip_skip c buffer t)"
  unfolding zip_skip_def
  by (intro pass_intros)

lemma pass_zip_entry: "catalogued_pass (zip_entry buffer t)"
  unfolding zip_entry_def Let_def
  by (intro pass_intros pass_Break_office pass_Break_mimetype pass_zip_skip)
    (simp_all add: extensions_def mimeTypes_def)

lemma cp_zip_loop: "catalogued_promise (zip_loop buffer t)"
proof (induction buffer t rule: zip_loop.induct)
  case (1 buffer t)
  have zip: "in_catalog (FileType ''zip'' ''application/zip'')"
    by (intro in_catalog_FileType) (simp_all add: extensions_def mimeTypes_def)
  show ?case
    using pass_zip_entry [of buffer t] "1.IH" zip
    by (subst zip_loop.simps)
      (auto split: promise.splits iteration.splits option.splits prod.splits)
qed

lemma cp_zip: "catalogued_promise (zip buffer t)"
  using cp_zip_loop [of buffer t]
  by (cases "zip_loop buffer t")
    (auto simp: zip_def in_catalog_FileType extensions_def mimeTypes_def)

lemma probe_catalogued:
  assumes "probe parse_files t = Fulfilled (buffer, b)"
  shows "catalogued b"
  using assms catalogued_12 catalogued_256 catalogued_512
  by (auto simp: probe_def await_eq_Fulfilled split: if_splits)

lemma perform_catalogued:
  assumes "perform fuel buffer t b = Done p" and "catalogued b"
  shows "catalogued_promise p"
proof (cases b)
  case (Return r)
  with assms show ?thesis
    by (cases r) (auto simp: perform_def)
next
  case PostScript
  have "catalogued_promise
          (await (peekBuffer t buffer (sample_options 24)) (\<lambda>(n, buffer').
            if checkString buffer' ''PS-Adobe-'' 2 \<and> checkString buffer' '' EPSF-'' 14
            then Fulfilled (Some (FileType ''eps'' ''application/eps''))
            else Fulfilled (Some (FileType ''ps'' ''application/postscript''))))"
    by (intro cp_intros) (simp_all add: extensions_def mimeTypes_def)
  with assms PostScript show ?thesis
    by (simp add: perform_def)
next
  case Id3
  have "in_catalog (FileType ''mp3'' ''audio/mpeg'')"
    by (intro in_catalog_FileType) (simp_all add: extensions_def mimeTypes_def)
  with assms Id3 show ?thesis
    by (auto simp: perform_def split: promise.splits if_splits)
qed (use assms in \<open>auto simp: perform_def cp_zip cp_ogg cp_pdf cp_tiff_ifd cp_ebml cp_ar cp_png
      cp_asf cp_jp2\<close>)

lemma cp_parse: "catalogued_promise (parse parse_files fuel t)"
proof (induction parse_files fuel t rule: parse.induct)
  case (1 parse_files fuel t)
  show ?case
  proof (cases "dispatch parse_files fuel t")
    case (Done p)
    then have "catalogued_promise p"
      by (auto simp: dispatch_def split: promise.splits
          dest: probe_catalogued perform_catalogued)
    with Done show ?thesis
      by (subst parse.simps) simp
  next
    case (Again t')
    with "1.IH" show ?thesis
      by (subst parse.simps) simp
  qed
qed

section \<open>Appending bytes\<close>


text \<open>The same tokenizer over an input with more bytes at its end.\<close>

definition appended :: "byte list \<Rightarrow> tokenizer \<Rightarrow> tokenizer" where
  "appended Y t = t\<lparr>uint8Array := uint8Array t @ Y\<rparr>"







lemma position_appended [simp]: "position (appended Y t) = position t"
  by (simp add: appended_def)

lemma fileInfo_size_appended [simp]:
  "fileInfo_size (appended Y t) = fileInfo_size t + int (length Y)"
  by (simp add: appended_def fileInfo_size_def)

lemma bytesLeft_appended [simp]: "bytesLeft (appended Y t) = bytesLeft t + int (length Y)"
  by (simp add: bytesLeft_def)





















section \<open>The TAR checksum, as the specification words it\<close>

text \<open>\<open>8 * 0x20\<close> plus the unsigned sum of bytes 0 to 148 and 156 to 512.\<close>

definition checksum_expected :: "byte list \<Rightarrow> int" where
  "checksum_expected buffer =
     8 * 0x20 + (\<Sum>i = 0..<148. uint (buffer ! i)) + (\<Sum>i = 156..<512. uint (buffer ! i))"

text \<open>A numeral in base 8, most significant digit first: the digit \<open>d\<close> that \<open>k\<close> digits
  follow counts \<open>d * 8 ^ k\<close>.\<close>

fun digits_value :: "nat list \<Rightarrow> int" where
  "digits_value [] = 0"
| "digits_value (d # ds) = (int d - 0x30) * 8 ^ length ds + digits_value ds"

text \<open>
  The field read strictly, as an ASCII octal number: the six bytes up to the first NUL,
  ASCII white space trimmed at both ends, and what is left is one or more of the digits
  \<open>0\<close> to \<open>7\<close> and nothing else. \<open>None\<close> is a field that does not parse.
\<close>

definition ascii_space :: "byte \<Rightarrow> bool" where
  "ascii_space b = (b \<in> {0x09, 0x0A, 0x0B, 0x0C, 0x0D, 0x20})"

definition checksum_text :: "byte list \<Rightarrow> byte list" where
  "checksum_text buffer =
     rev (dropWhile ascii_space (rev (dropWhile ascii_space
       (takeWhile (\<lambda>b. b \<noteq> 0) (take 6 (drop 148 buffer))))))"

definition checksum_field :: "byte list \<Rightarrow> int option" where
  "checksum_field buffer =
     (if checksum_text buffer \<noteq> [] \<and> (\<forall>b \<in> set (checksum_text buffer). 0x30 \<le> b \<and> b \<le> 0x37)
      then Some (digits_value (map unat (checksum_text buffer)))
      else None)"

text \<open>
  The field read leniently, on the code units of a decoded string: white space of
  ECMAScript is skipped, a sign is taken, and the longest run of the digits \<open>0\<close> to \<open>7\<close> that
  follows is the number, whatever comes after it. \<open>None\<close> is a string with no such digit.
\<close>

definition js_space :: "nat \<Rightarrow> bool" where
  "js_space c =
     (c \<in> {0x09, 0x0A, 0x0B, 0x0C, 0x0D, 0x20, 0xA0, 0x1680, 0x2028, 0x2029, 0x202F, 0x205F,
            0x3000, 0xFEFF}
      \<or> (0x2000 \<le> c \<and> c \<le> 0x200A))"

definition leading_octal :: "jsstring \<Rightarrow> int option" where
  "leading_octal s =
     (let body = dropWhile js_space s;
          signed = (body \<noteq> [] \<and> (hd body = 0x2B \<or> hd body = 0x2D));
          digits = takeWhile (\<lambda>c. 0x30 \<le> c \<and> c \<le> 0x37) (if signed then tl body else body)
      in if digits = [] then None
         else if signed \<and> hd body = 0x2D then Some (- digits_value digits)
         else Some (digits_value digits))"

lemma sum_loop_eq:
  "bound \<le> length buffer \<Longrightarrow>
   sum_loop buffer i bound (Some s) = Some (s + (\<Sum>k = i..<bound. uint (buffer ! k)))"
proof (induction buffer i bound "Some s" arbitrary: s rule: sum_loop.induct)
  case (1 buffer i bound)
  show ?case
  proof (cases "i < bound")
    case True
    then have "js_index buffer i = Some (buffer ! i)"
      using "1.prems" by (simp add: js_index_def)
    then have "sum_loop buffer i bound (Some s)
                 = sum_loop buffer (Suc i) bound (Some (s + uint (buffer ! i)))"
      using True by (subst sum_loop.simps) (simp add: add_element_def)
    also have "\<dots> = Some (s + uint (buffer ! i) + (\<Sum>k = Suc i..<bound. uint (buffer ! k)))"
      using True "1.prems" \<open>js_index buffer i = Some (buffer ! i)\<close>
      by (intro "1.hyps") (simp_all add: add_element_def)
    finally show ?thesis
      using True by (simp add: sum.atLeast_Suc_lessThan add.assoc)
  next
    case False
    then show ?thesis
      by (subst sum_loop.simps) simp
  qed
qed

lemma whiteSpace_not_nul: "whiteSpace c \<Longrightarrow> c \<noteq> 0"
  by (auto simp: whiteSpace_def lineTerminator_def)

lemma octalDigit_not_nul: "octalDigit c \<Longrightarrow> c \<noteq> 0"
  by (auto simp: octalDigit_def)

lemma octalDigit_not_whiteSpace: "whiteSpace c \<Longrightarrow> \<not> octalDigit c"
  by (auto simp: whiteSpace_def lineTerminator_def octalDigit_def)

lemma dropWhile_takeWhile_swap:
  "(\<And>x. P x \<Longrightarrow> Q x) \<Longrightarrow> dropWhile P (takeWhile Q xs) = takeWhile Q (dropWhile P xs)"
  by (induction xs) auto

lemma takeWhile_takeWhile_imp:
  "(\<And>x. P x \<Longrightarrow> Q x) \<Longrightarrow> takeWhile P (takeWhile Q xs) = takeWhile P xs"
  by (induction xs) auto

lemma parseInt8_takeWhile:
  assumes ws: "\<And>c. whiteSpace c \<Longrightarrow> Q c" and od: "\<And>c. octalDigit c \<Longrightarrow> Q c"
    and sign: "Q 0x2B" "Q 0x2D"
  shows "parseInt8 (takeWhile Q s) = parseInt8 s"
proof -
  define s1 where "s1 = dropWhile whiteSpace s"
  have d: "dropWhile whiteSpace (takeWhile Q s) = takeWhile Q s1"
    unfolding s1_def by (intro dropWhile_takeWhile_swap) (rule ws)
  have t: "takeWhile octalDigit (takeWhile Q xs) = takeWhile octalDigit xs" for xs
    by (intro takeWhile_takeWhile_imp) (rule od)
  show ?thesis
  proof (cases s1)
    case Nil
    then show ?thesis
      by (simp add: parseInt8_def d s1_def [symmetric] Let_def)
  next
    case (Cons c cs)
    show ?thesis
    proof (cases "Q c")
      case True
      then show ?thesis
        using Cons t [of cs] t [of "c # cs"]
        by (simp add: parseInt8_def d s1_def [symmetric] Let_def)
    next
      case False
      then have "\<not> octalDigit c"
        using od by blast
      then show ?thesis
        using Cons False sign by (auto simp: parseInt8_def d s1_def [symmetric] Let_def)
    qed
  qed
qed

lemma parseInt8_takeWhile_nul: "parseInt8 (takeWhile (\<lambda>c. c \<noteq> 0) s) = parseInt8 s"
  by (rule parseInt8_takeWhile) (simp_all add: whiteSpace_not_nul octalDigit_not_nul)

lemma takeWhile_append_stop:
  assumes "\<And>x. x \<in> set w \<Longrightarrow> \<not> P x"
  shows "takeWhile P (xs @ w) = takeWhile P xs"
proof (induction xs)
  case Nil
  show ?case using assms by (cases w) simp_all
next
  case (Cons x xs)
  then show ?case by simp
qed

lemma parseInt8_trailing:
  assumes "\<And>x. x \<in> set w \<Longrightarrow> whiteSpace x" and "xs \<noteq> [] \<Longrightarrow> \<not> whiteSpace (hd xs)"
  shows "parseInt8 xs = parseInt8 (xs @ w)"
proof (cases xs)
  case Nil
  have dw: "dropWhile whiteSpace w = []"
    using assms(1) by (simp add: dropWhile_eq_Nil_conv)
  show ?thesis
    unfolding Nil parseInt8_def append_Nil dw by (simp add: Let_def)
next
  case (Cons c cs)
  have c: "\<not> whiteSpace c"
    using assms(2) Cons by simp
  have stop: "takeWhile octalDigit (ys @ w) = takeWhile octalDigit ys" for ys
    using assms(1) by (intro takeWhile_append_stop) (simp add: octalDigit_not_whiteSpace)
  show ?thesis
    using Cons c stop [of cs] stop [of "c # cs"]
    by (simp add: parseInt8_def Let_def)
qed

lemma parseInt8_trim: "parseInt8 (trim s) = parseInt8 s"
proof -
  define s1 where "s1 = dropWhile whiteSpace s"
  define xs where "xs = rev (dropWhile whiteSpace (rev s1))"
  define w where "w = rev (takeWhile whiteSpace (rev s1))"
  have split: "s1 = xs @ w"
    unfolding xs_def w_def by (simp flip: rev_append)
  have w: "\<And>x. x \<in> set w \<Longrightarrow> whiteSpace x"
    unfolding w_def by (auto dest: set_takeWhileD)
  have hd: "xs \<noteq> [] \<Longrightarrow> \<not> whiteSpace (hd xs)"
  proof -
    assume "xs \<noteq> []"
    then have "hd xs = hd s1" "s1 \<noteq> []"
      using split by (cases xs; simp)+
    then show "\<not> whiteSpace (hd xs)"
      unfolding s1_def using hd_dropWhile [of whiteSpace s] by simp
  qed
  have "parseInt8 (trim s) = parseInt8 xs"
    by (simp add: trim_def xs_def s1_def)
  also have "\<dots> = parseInt8 s1"
    unfolding split using w hd by (rule parseInt8_trailing)
  also have "\<dots> = parseInt8 s"
    by (simp add: parseInt8_def s1_def)
  finally show ?thesis .
qed

lemma takeWhile_replace_nul:
  "takeWhile (\<lambda>c. c \<noteq> 0) (replace_nul_to_end s) = takeWhile (\<lambda>c. c \<noteq> 0) s"
  by (induction s) auto

lemma readSum_parseInt8: "parseInt8 (trim (replace_nul_to_end s)) = parseInt8 s"
proof -
  have "parseInt8 (trim (replace_nul_to_end s))
          = parseInt8 (takeWhile (\<lambda>c. c \<noteq> 0) (replace_nul_to_end s))"
    by (simp only: parseInt8_trim parseInt8_takeWhile_nul)
  also have "\<dots> = parseInt8 s"
    by (simp only: takeWhile_replace_nul parseInt8_takeWhile_nul)
  finally show ?thesis .
qed

lemma js_space_whiteSpace: "js_space = whiteSpace"
  by (rule ext) (auto simp: js_space_def whiteSpace_def lineTerminator_def)

lemma octal_value_acc:
  "foldl (\<lambda>acc c. acc * 8 + (int c - 0x30)) a ds = a * 8 ^ length ds + digits_value ds"
  by (induction ds arbitrary: a) (simp_all add: algebra_simps)

lemma octal_value_digits: "octal_value ds = digits_value ds"
  by (simp add: octal_value_def octal_value_acc)

lemma leading_octal_parseInt8: "leading_octal s = parseInt8 s"
proof -
  define body where "body = dropWhile whiteSpace s"
  have digit: "(\<lambda>c. 0x30 \<le> c \<and> c \<le> 0x37) = octalDigit"
    by (rule ext) (simp add: octalDigit_def)
  show ?thesis
  proof (cases body)
    case Nil
    then show ?thesis
      by (simp add: leading_octal_def parseInt8_def js_space_whiteSpace body_def [symmetric])
  next
    case (Cons c cs)
    then show ?thesis
      by (simp add: leading_octal_def parseInt8_def js_space_whiteSpace body_def [symmetric]
          digit octal_value_digits Let_def)
  qed
qed

lemma tar_matches_iff:
  assumes "512 \<le> length buffer"
  shows "tarHeaderChecksumMatches buffer 0
           = (leading_octal (toString buffer Utf8 148 154) = Some (checksum_expected buffer))"
proof -
  have "sum_loop buffer 156 512 (sum_loop buffer 0 148 (Some (8 * 0x20)))
          = Some (checksum_expected buffer)"
    using assms by (simp add: sum_loop_eq checksum_expected_def)
  then show ?thesis
    unfolding tarHeaderChecksumMatches_def readSum_parseInt8 leading_octal_parseInt8
    by (auto split: option.splits)
qed

lemma signatures_512_tar:
  "(signatures_512 buffer = found ''tar'' ''application/x-tar'')
     = tarHeaderChecksumMatches buffer 0"
  by (simp add: signatures_512_def found_def mpeg_audio_def)

lemma utf8_decode_ascii:
  "(\<And>b. b \<in> set xs \<Longrightarrow> b < 0x80) \<Longrightarrow> utf8_decode (xs @ ys) = map unat xs @ utf8_decode ys"
  by (induction xs) simp_all

lemma trim_split:
  "xs = takeWhile P xs @ rev (dropWhile P (rev (dropWhile P xs)))
          @ rev (takeWhile P (rev (dropWhile P xs)))"
proof -
  have "dropWhile P xs = rev (takeWhile P (rev (dropWhile P xs)) @ dropWhile P (rev (dropWhile P xs)))"
    by simp
  then have "dropWhile P xs = rev (dropWhile P (rev (dropWhile P xs)))
                                @ rev (takeWhile P (rev (dropWhile P xs)))"
    by (simp only: rev_append)
  then show ?thesis
    by (metis takeWhile_dropWhile_id)
qed

lemma ascii_space_unat: "ascii_space b \<Longrightarrow> js_space (unat b) \<and> b < 0x80 \<and> \<not> (0x30 \<le> unat b \<and> unat b \<le> 0x37)"
  by (auto simp: ascii_space_def js_space_def)

lemma octal_byte_unat:
  "0x30 \<le> b \<and> b \<le> (0x37 :: byte)
   \<Longrightarrow> 0x30 \<le> unat b \<and> unat b \<le> 0x37 \<and> b < 0x80 \<and> \<not> js_space (unat b)
       \<and> unat b \<noteq> 0x2B \<and> unat b \<noteq> 0x2D"
  by (auto simp: word_le_nat_alt word_less_nat_alt js_space_def)

lemma leading_octal_digits:
  assumes lead: "\<And>c. c \<in> set lead \<Longrightarrow> js_space c"
    and digits: "digits \<noteq> []" "\<And>c. c \<in> set digits \<Longrightarrow> 0x30 \<le> c \<and> c \<le> 0x37 \<and> \<not> js_space c"
    and after: "after = [] \<or> \<not> (0x30 \<le> hd after \<and> hd after \<le> 0x37)"
  shows "leading_octal (lead @ digits @ after) = Some (digits_value digits)"
proof -
  obtain d ds where d: "digits = d # ds"
    using digits(1) by (cases digits) auto
  have hd: "0x30 \<le> d \<and> d \<le> 0x37 \<and> \<not> js_space d"
    using digits(2) [of d] d by simp
  have body: "dropWhile js_space (lead @ digits @ after) = digits @ after"
    using lead hd by (simp add: dropWhile_append2 d)
  have stop: "takeWhile (\<lambda>c. 0x30 \<le> c \<and> c \<le> 0x37) after = []"
    using after by (cases after) auto
  have run: "takeWhile (\<lambda>c. 0x30 \<le> c \<and> c \<le> 0x37) (digits @ after) = digits"
    using digits(2) stop by (simp add: takeWhile_append2)
  have unsigned: "\<not> (hd (digits @ after) = 0x2B \<or> hd (digits @ after) = 0x2D)"
    using hd by (auto simp: d)
  show ?thesis
    unfolding leading_octal_def body Let_def
    using unsigned run digits(1) by simp
qed

lemma strict_is_lenient:
  assumes "checksum_field buffer = Some n"
  shows "leading_octal (toString buffer Utf8 148 154) = Some n"
proof -
  define field where "field = take 6 (drop 148 buffer)"
  define pre where "pre = takeWhile (\<lambda>b. b \<noteq> 0) field"
  define post where "post = dropWhile (\<lambda>b. b \<noteq> 0) field"
  define w1 where "w1 = takeWhile ascii_space pre"
  define w2 where "w2 = rev (takeWhile ascii_space (rev (dropWhile ascii_space pre)))"
  have trimmed: "checksum_text buffer = rev (dropWhile ascii_space (rev (dropWhile ascii_space pre)))"
    by (simp add: checksum_text_def pre_def field_def)
  from assms have nonempty: "checksum_text buffer \<noteq> []"
    and octal: "\<And>b. b \<in> set (checksum_text buffer) \<Longrightarrow> 0x30 \<le> b \<and> b \<le> 0x37"
    and n: "n = digits_value (map unat (checksum_text buffer))"
    by (auto simp: checksum_field_def split: if_splits)
  have pre: "pre = w1 @ checksum_text buffer @ w2"
    unfolding w1_def w2_def trimmed by (rule trim_split)
  have w1: "\<And>b. b \<in> set w1 \<Longrightarrow> ascii_space b"
    unfolding w1_def by (auto dest: set_takeWhileD)
  have w2: "\<And>b. b \<in> set w2 \<Longrightarrow> ascii_space b"
    unfolding w2_def by (auto dest: set_takeWhileD)
  have ascii: "\<And>b. b \<in> set pre \<Longrightarrow> b < 0x80"
  proof -
    fix b assume "b \<in> set pre"
    then consider "b \<in> set w1" | "b \<in> set (checksum_text buffer)" | "b \<in> set w2"
      unfolding pre by auto
    then show "b < 0x80"
      using w1 [of b] w2 [of b] octal [of b] ascii_space_unat [of b] octal_byte_unat [of b]
      by cases blast+
  qed
  have post: "post = [] \<or> hd post = 0"
    unfolding post_def using hd_dropWhile [of "\<lambda>b. b \<noteq> 0" field] by auto
  have "toString buffer Utf8 148 154 = utf8_decode (pre @ post)"
    by (simp add: toString_def decode_def field_def pre_def post_def)
  also have "\<dots> = map unat pre @ utf8_decode post"
    using ascii by (rule utf8_decode_ascii)
  also have "\<dots> = map unat w1 @ map unat (checksum_text buffer) @ (map unat w2 @ utf8_decode post)"
    by (simp add: pre)
  finally have decoded: "toString buffer Utf8 148 154
      = map unat w1 @ map unat (checksum_text buffer) @ (map unat w2 @ utf8_decode post)" .
  have after: "map unat w2 @ utf8_decode post = []
                 \<or> \<not> (0x30 \<le> hd (map unat w2 @ utf8_decode post)
                       \<and> hd (map unat w2 @ utf8_decode post) \<le> 0x37)"
  proof (cases w2)
    case Nil
    show ?thesis
    proof (cases post)
      case Nil
      then show ?thesis using \<open>w2 = []\<close> by simp
    next
      case (Cons p ps)
      then have "p = 0" using post by simp
      then show ?thesis using \<open>w2 = []\<close> Cons by simp
    qed
  next
    case (Cons b bs)
    then have "ascii_space b" using w2 by simp
    then show ?thesis
      using Cons ascii_space_unat [of b] by simp
  qed
  show ?thesis
    unfolding decoded n
  proof (rule leading_octal_digits)
    show "\<And>c. c \<in> set (map unat w1) \<Longrightarrow> js_space c"
      using w1 by (auto dest: ascii_space_unat)
    show "map unat (checksum_text buffer) \<noteq> []"
      using nonempty by simp
    show "\<And>c. c \<in> set (map unat (checksum_text buffer))
            \<Longrightarrow> 0x30 \<le> c \<and> c \<le> 0x37 \<and> \<not> js_space c"
    proof -
      fix c assume "c \<in> set (map unat (checksum_text buffer))"
      then obtain b where "b \<in> set (checksum_text buffer)" "c = unat b"
        by auto
      then show "0x30 \<le> c \<and> c \<le> 0x37 \<and> \<not> js_space c"
        using octal [of b] octal_byte_unat [of b] by blast
    qed
    show "map unat w2 @ utf8_decode post = []
            \<or> \<not> (0x30 \<le> hd (map unat w2 @ utf8_decode post)
                  \<and> hd (map unat w2 @ utf8_decode post) \<le> 0x37)"
      by (rule after)
  qed
qed


lemma tar_probe_lenient:
  assumes "512 \<le> length buffer"
  shows "(signatures_512 buffer = found ''tar'' ''application/x-tar'')
           = (leading_octal (toString buffer Utf8 148 154) = Some (checksum_expected buffer))"
  using tar_matches_iff [OF assms] by (simp only: signatures_512_tar)

lemma checksum_expected_zero:
  assumes "length field = 8"
  shows "checksum_expected (alloc 148 @ field @ alloc 356) = 256"
proof -
  have low: "(\<Sum>i = 0..<148. uint ((alloc 148 @ field @ alloc 356) ! i)) = 0"
    by (intro sum.neutral) (simp add: nth_append alloc_def)
  have high: "(\<Sum>i = 156..<512. uint ((alloc 148 @ field @ alloc 356) ! i)) = 0"
    using assms by (intro sum.neutral) (auto simp: nth_append alloc_def)
  show ?thesis
    by (simp add: checksum_expected_def low high)
qed

section \<open>The PNG walk, as the specification words it\<close>

text \<open>
  The walk over the bytes that follow the PNG signature. A chunk header is a length, signed
  32-bit big-endian, and a type of 4 bytes; a header that is cut short ends the stream. The
  walk answers \<open>png\<close> at \<open>IDAT\<close>, \<open>apng\<close> at \<open>acTL\<close>, nothing at a negative length, and
  otherwise skips \<open>length + 4\<close> bytes and goes on while more than 8 bytes are left.
\<close>

definition chunk_length :: "byte list \<Rightarrow> int" where
  "chunk_length bs =
     (let n = uint (bs ! 0) * 2 ^ 24 + uint (bs ! 1) * 2 ^ 16 + uint (bs ! 2) * 2 ^ 8
                + uint (bs ! 3)
      in if n < 2 ^ 31 then n else n - 2 ^ 32)"

definition chunk_type :: "byte list \<Rightarrow> byte list" where
  "chunk_type bs = take 4 (drop 4 bs)"

definition next_chunk :: "byte list \<Rightarrow> byte list" where
  "next_chunk bs = drop (nat (chunk_length bs + 4)) (drop 8 bs)"

function spec_png_walk :: "byte list \<Rightarrow> fileType option promise" where
  "spec_png_walk bs =
     (if length bs < 8 then Rejected EndOfStreamError
      else if chunk_length bs < 0 then Fulfilled None
      else if chunk_type bs = [0x49, 0x44, 0x41, 0x54]
        then Fulfilled (Some (FileType ''png'' ''image/png''))
      else if chunk_type bs = [0x61, 0x63, 0x54, 0x4C]
        then Fulfilled (Some (FileType ''apng'' ''image/apng''))
      else if 8 < length (next_chunk bs) then spec_png_walk (next_chunk bs)
      else Fulfilled (Some (FileType ''png'' ''image/png'')))"
  by pat_completeness auto
termination
  by (relation "measure length") (auto simp: next_chunk_def)

declare spec_png_walk.simps [simp del]

lemma cons12:
  assumes "12 \<le> length (B :: 'a list)"
  obtains b0 b1 b2 b3 b4 b5 b6 b7 b8 b9 b10 b11 bs
  where "B = b0 # b1 # b2 # b3 # b4 # b5 # b6 # b7 # b8 # b9 # b10 # b11 # bs"
proof -
  have "\<exists>b0 b1 b2 b3 b4 b5 b6 b7 b8 b9 b10 b11 bs.
          B = b0 # b1 # b2 # b3 # b4 # b5 # b6 # b7 # b8 # b9 # b10 # b11 # bs"
    using assms by (auto simp: eval_nat_numeral Suc_le_length_iff)
  then show ?thesis
    using that by blast
qed

lemma signatures_12_png_cons:
  assumes "[b8, b9, b10, b11] \<noteq> [0x57, 0x45, 0x42, 0x50]"
  shows "signatures_12 (0x89 # 0x50 # 0x4E # 0x47 # 0x0D # 0x0A # 0x1A # 0x0A
           # b8 # b9 # b10 # b11 # bs) = Png"
  using assms by (simp add: probe_defs js_index_simps js_bitand_def)

lemma signatures_12_png:
  assumes len: "12 \<le> length B"
    and magic: "take 8 B = [0x89, 0x50, 0x4E, 0x47, 0x0D, 0x0A, 0x1A, 0x0A]"
    and webp: "take 4 (drop 8 B) \<noteq> [0x57, 0x45, 0x42, 0x50]"
  shows "signatures_12 B = Png"
proof -
  from len obtain b0 b1 b2 b3 b4 b5 b6 b7 b8 b9 b10 b11 bs
    where B: "B = b0 # b1 # b2 # b3 # b4 # b5 # b6 # b7 # b8 # b9 # b10 # b11 # bs"
    by (rule cons12)
  have "B = 0x89 # 0x50 # 0x4E # 0x47 # 0x0D # 0x0A # 0x1A # 0x0A # b8 # b9 # b10 # b11 # bs"
    using magic unfolding B by simp
  moreover have "[b8, b9, b10, b11] \<noteq> [0x57, 0x45, 0x42, 0x50]"
    using webp unfolding B by simp
  ultimately show ?thesis
    using signatures_12_png_cons [of b8 b9 b10 b11 bs] by simp
qed

lemma take_padded_nonzero:
  assumes "take k (xs @ alloc n) = ys" and "0 \<notin> set ys" and "length ys = k"
  shows "take k xs = ys"
proof (cases "k \<le> length xs")
  case True
  then show ?thesis
    using assms(1) by simp
next
  case False
  have "length (take k (xs @ alloc n)) = k"
    using assms by simp
  then have "0 < min (k - length xs) n"
    using False by simp
  then have "0 \<in> set (replicate (min (k - length xs) n) (0 :: byte))"
    by simp
  moreover have "ys = xs @ replicate (min (k - length xs) n) 0"
    using assms(1) False by (simp add: alloc_def)
  ultimately show ?thesis
    using assms(2) by simp
qed


lemma binary_eq_iff: "(decode Binary xs = decode Binary ys) = (xs = ys)"
proof -
  have "inj (unat :: byte \<Rightarrow> nat)"
    by (rule injI) (simp add: word_unat_eq_iff)
  then show ?thesis
    by (simp add: decode_def inj_map_eq_map)
qed

lemma str_IDAT: "str ''IDAT'' = decode Binary [0x49, 0x44, 0x41, 0x54]"
  by (simp add: str_def decode_def)

lemma str_acTL: "str ''acTL'' = decode Binary [0x61, 0x63, 0x54, 0x4C]"
  by (simp add: str_def decode_def)

lemma sint_32:
  assumes "0 \<le> x" and "x < 2 ^ 32"
  shows "sint (word_of_int x :: 32 word) = (if x < 2 ^ 31 then x else x - 2 ^ 32)"
proof (cases "x < 2 ^ 31")
  case True
  then have "(x + 2 ^ 31) mod 2 ^ 32 = x + 2 ^ 31"
    using assms by (intro mod_pos_pos_trivial) simp_all
  then show ?thesis
    using True unfolding int_word_sint by simp
next
  case False
  have "x + 2 ^ 31 = x - 2 ^ 31 + 2 ^ 32"
    by simp
  then have "(x + 2 ^ 31) mod 2 ^ 32 = (x - 2 ^ 31 + 2 ^ 32) mod 2 ^ 32"
    by (rule arg_cong)
  also have "\<dots> = (x - 2 ^ 31) mod 2 ^ 32"
    by (rule mod_add_self2)
  also have "\<dots> = x - 2 ^ 31"
    using assms False by (intro mod_pos_pos_trivial) simp_all
  finally show ?thesis
    using False unfolding int_word_sint by simp
qed

lemma uint_byte_bounds: "0 \<le> uint (b :: byte) \<and> uint b < 256"
  using uint_bounded [of b] by simp

lemma INT32_BE_chunk_length:
  assumes "4 \<le> length bs"
  shows "sint (word_of_int (be_value (take 4 bs)) :: 32 word) = chunk_length bs"
proof -
  obtain a b c d rest where bs: "bs = a # b # c # d # rest"
    using assms by (auto simp: eval_nat_numeral Suc_le_length_iff)
  define n where "n = uint a * 2 ^ 24 + uint b * 2 ^ 16 + uint c * 2 ^ 8 + uint d"
  have val: "be_value (take 4 bs) = n"
    by (simp add: bs be_value_def n_def)
  have "0 \<le> n" "n < 2 ^ 32"
    using uint_byte_bounds [of a] uint_byte_bounds [of b] uint_byte_bounds [of c]
      uint_byte_bounds [of d]
    by (simp_all add: n_def)
  then have "sint (word_of_int n :: 32 word) = (if n < 2 ^ 31 then n else n - 2 ^ 32)"
    by (rule sint_32)
  then show ?thesis
    unfolding val by (simp add: chunk_length_def bs n_def Let_def)
qed

lemma readChunkHeader_wf:
  assumes wf: "wf_tokenizer t"
  shows "readChunkHeader t =
           (if length (rest t) < 8 then Rejected EndOfStreamError
            else Fulfilled ((chunk_length (rest t), decode Binary (chunk_type (rest t))),
                            advance 8 t))"
proof -
  have n: "bytesLeft t = int (length (rest t))"
    using wf by (simp add: length_rest)
  show ?thesis
  proof (cases "length (rest t) < 4")
    case True
    then have "readToken t INT32_BE = Rejected EndOfStreamError"
      using n by (simp add: readToken_wf [OF wf] INT32_BE_def)
    then show ?thesis
      using True by (simp add: readChunkHeader_def)
  next
    case False
    then have four: "4 \<le> bytesLeft t"
      using n by simp
    have "sint (word_of_int (be_value (take 4 (rest t))) :: 32 word) = chunk_length (rest t)"
      using False by (intro INT32_BE_chunk_length) simp
    then have r1: "readToken t INT32_BE = Fulfilled (chunk_length (rest t), advance 4 t)"
      using False n
      by (simp add: readToken_wf [OF wf] INT32_BE_def dv_bytes_def)
    have wf4: "wf_tokenizer (advance 4 t)"
      using wf four by (intro wf_advance) simp_all
    have n4: "bytesLeft (advance 4 t) = bytesLeft t - 4"
      by (simp add: bytesLeft_def advance_def fileInfo_size_def)
    have rest4: "rest (advance 4 t) = drop 4 (rest t)"
      using rest_advance [OF wf, of 4] by simp
    show ?thesis
    proof (cases "length (rest t) < 8")
      case True
      then have "readToken (advance 4 t) (StringType 4 Binary) = Rejected EndOfStreamError"
        using n n4 by (simp add: readToken_wf [OF wf4] StringType_def)
      then show ?thesis
        using True r1 by (simp add: readChunkHeader_def)
    next
      case False
      then have "readToken (advance 4 t) (StringType 4 Binary)
                   = Fulfilled (decode Binary (chunk_type (rest t)), advance 4 (advance 4 t))"
        using n n4
        by (simp add: readToken_wf [OF wf4] StringType_def toString_def rest4 chunk_type_def)
      moreover have "advance 4 (advance 4 t) = advance 8 t"
        by (simp add: advance_def)
      ultimately show ?thesis
        using False r1 by (simp add: readChunkHeader_def)
    qed
  qed
qed

lemma png_chunk_wf:
  assumes wf: "wf_tokenizer t"
  shows "png_chunk t =
           (if length (rest t) < 8 then Rejected EndOfStreamError
            else if chunk_length (rest t) < 0 then Fulfilled (Break None)
            else if chunk_type (rest t) = [0x49, 0x44, 0x41, 0x54]
              then Fulfilled (Break (Some (FileType ''png'' ''image/png'')))
            else if chunk_type (rest t) = [0x61, 0x63, 0x54, 0x4C]
              then Fulfilled (Break (Some (FileType ''apng'' ''image/apng'')))
            else Fulfilled (Continue (ignore (chunk_length (rest t) + 4) (advance 8 t))))"
  by (simp add: png_chunk_def readChunkHeader_wf [OF wf] str_IDAT str_acTL binary_eq_iff)

lemma png_loop_refines:
  assumes "wf_tokenizer t"
  shows "png_loop t = spec_png_walk (rest t)"
  using assms
proof (induction "rest t" arbitrary: t rule: spec_png_walk.induct)
  case (1 t)
  note wf = \<open>wf_tokenizer t\<close>
  define bs where "bs = rest t"
  define t' where "t' = ignore (chunk_length bs + 4) (advance 8 t)"
  show ?case
  proof (cases "length bs < 8 \<or> chunk_length bs < 0 \<or> chunk_type bs = [0x49, 0x44, 0x41, 0x54]
                 \<or> chunk_type bs = [0x61, 0x63, 0x54, 0x4C]")
    case True
    then show ?thesis
      by (subst png_loop.simps, subst spec_png_walk.simps)
         (auto simp: png_chunk_wf [OF wf] bs_def [symmetric])
  next
    case False
    then have len: "8 \<le> length bs" and nonneg: "0 \<le> chunk_length bs"
      by simp_all
    have n: "bytesLeft t = int (length bs)"
      using wf by (simp add: length_rest bs_def)
    have wf8: "wf_tokenizer (advance 8 t)"
      using wf len n by (intro wf_advance) simp_all
    have wf': "wf_tokenizer t'"
      unfolding t'_def using wf8 nonneg by (intro wf_ignore) simp_all
    have rest8: "rest (advance 8 t) = drop 8 bs"
      using rest_advance [OF wf, of 8] by (simp add: bs_def)
    have n8: "bytesLeft (advance 8 t) = int (length (drop 8 bs))"
      using length_rest [OF wf8] by (simp add: rest8)
    have rest': "rest t' = next_chunk bs"
    proof -
      have "t' = advance (min (chunk_length bs + 4) (bytesLeft (advance 8 t))) (advance 8 t)"
        unfolding t'_def using nonneg by (intro ignore_wf) simp
      then have "rest t' = drop (nat (min (chunk_length bs + 4) (bytesLeft (advance 8 t))))
                             (drop 8 bs)"
        using rest_advance [OF wf8, of "min (chunk_length bs + 4) (bytesLeft (advance 8 t))"]
          nonneg n8 by (simp add: rest8)
      also have "\<dots> = drop (nat (chunk_length bs + 4)) (drop 8 bs)"
        unfolding n8 by (cases "chunk_length bs + 4 \<le> int (length (drop 8 bs))")
          (simp_all add: min_def)
      finally show ?thesis
        by (simp add: next_chunk_def)
    qed
    have cond: "(position t' + 8 < fileInfo_size t') = (8 < length (next_chunk bs))"
      using length_rest [OF wf'] unfolding bytesLeft_def rest' by linarith
    have chunk: "png_chunk t = Fulfilled (Continue t')"
      using False by (simp add: png_chunk_wf [OF wf] bs_def [symmetric] t'_def)
    show ?thesis
    proof (cases "8 < length (next_chunk bs)")
      case True
      have "png_loop t' = spec_png_walk (rest t')"
        using False True wf' rest' by (intro "1.hyps") (simp_all add: bs_def)
      then show ?thesis
        using False True
        by (subst png_loop.simps, subst spec_png_walk.simps)
           (simp add: chunk cond bs_def [symmetric] rest')
    next
      case no_more: False
      show ?thesis
        using False no_more
        by (subst png_loop.simps, subst spec_png_walk.simps)
           (simp add: chunk cond bs_def [symmetric])
    qed
  qed
qed

lemma png_probe:
  assumes webp: "take 4 chunks \<noteq> [0x57, 0x45, 0x42, 0x50]"
  shows "\<exists>buffer. probe parse_files
             (fromBuffer ([0x89, 0x50, 0x4E, 0x47, 0x0D, 0x0A, 0x1A, 0x0A] @ chunks))
           = Fulfilled (buffer, Png)"
proof -
  define input where "input = [0x89, 0x50, 0x4E, 0x47, 0x0D, 0x0A, 0x1A, 0x0A] @ chunks"
  define pad where "pad = alloc (minimumBytes - min (length input) 12)"
  define B where "B = take 12 input @ pad"
  have wf: "wf_tokenizer (fromBuffer input)"
    by (rule wf_fromBuffer)
  have peek: "peekBuffer (fromBuffer input) (alloc minimumBytes) (sample_options 12)
                = Fulfilled (min (bytesLeft (fromBuffer input)) 12, B)"
  proof -
    have "peekBuffer (fromBuffer input) (alloc minimumBytes) (sample_options 12)
            = Fulfilled (min (bytesLeft (fromBuffer input)) 12,
                take (nat 12) (rest (fromBuffer input))
                  @ drop (min (length (rest (fromBuffer input))) (nat 12)) (alloc minimumBytes))"
      using wf by (rule peekBuffer_sample) (simp_all add: minimumBytes_def)
    moreover have "take (nat 12) (rest (fromBuffer input))
                     @ drop (min (length (rest (fromBuffer input))) (nat 12)) (alloc minimumBytes)
                   = B"
      by (simp add: rest_fromBuffer B_def pad_def)
    ultimately show ?thesis
      by (simp only:)
  qed
  have "take 4 (drop 8 B) \<noteq> [0x57, 0x45, 0x42, 0x50]"
  proof
    assume eq: "take 4 (drop 8 B) = [0x57, 0x45, 0x42, 0x50]"
    have "drop 8 B = take 4 chunks @ pad"
      by (simp add: B_def input_def)
    then have "take 4 (take 4 chunks @ alloc (minimumBytes - min (length input) 12))
                 = [0x57, 0x45, 0x42, 0x50]"
      using eq by (simp only: pad_def)
    then have "take 4 (take 4 chunks) = [0x57, 0x45, 0x42, 0x50]"
      by (rule take_padded_nonzero) simp_all
    then show False
      using webp by simp
  qed
  moreover have "12 \<le> length B"
  proof -
    define k where "k = min (length input) 12"
    have "k \<le> 12"
      by (simp add: k_def)
    then have "12 \<le> minimumBytes - k"
      by (simp add: minimumBytes_def)
    then have "12 \<le> length pad"
      by (simp only: pad_def k_def length_alloc)
    then show ?thesis
      by (simp only: B_def length_append trans_le_add2)
  qed
  moreover have "take 8 B = [0x89, 0x50, 0x4E, 0x47, 0x0D, 0x0A, 0x1A, 0x0A]"
    by (simp add: B_def input_def)
  ultimately have "signatures_12 B = Png"
    by (intro signatures_12_png)
  then have "probe parse_files (fromBuffer input) = Fulfilled (B, Png)"
    by (simp add: probe_def peek)
  then show ?thesis
    unfolding input_def by blast
qed

lemma png_parse:
  assumes webp: "take 4 chunks \<noteq> [0x57, 0x45, 0x42, 0x50]"
  shows "parse parse_files fuel
           (fromBuffer ([0x89, 0x50, 0x4E, 0x47, 0x0D, 0x0A, 0x1A, 0x0A] @ chunks))
           = spec_png_walk chunks"
proof -
  define input where "input = [0x89, 0x50, 0x4E, 0x47, 0x0D, 0x0A, 0x1A, 0x0A] @ chunks"
  have wf: "wf_tokenizer (fromBuffer input)"
    by (rule wf_fromBuffer)
  have left: "bytesLeft (fromBuffer input) = 8 + int (length chunks)"
    by (simp add: bytesLeft_fromBuffer input_def)
  have skip: "ignore 8 (fromBuffer input) = advance 8 (fromBuffer input)"
    using ignore_wf [of 8 "fromBuffer input"] left by simp
  have wf8: "wf_tokenizer (advance 8 (fromBuffer input))"
    using wf left by (intro wf_advance) simp_all
  have rest8: "rest (advance 8 (fromBuffer input)) = chunks"
    using rest_advance [OF wf, of 8] by (simp add: rest_fromBuffer input_def)
  obtain buffer where "probe parse_files (fromBuffer input) = Fulfilled (buffer, Png)"
    using png_probe [OF webp] unfolding input_def by blast
  then have "parse parse_files fuel (fromBuffer input) = png (fromBuffer input)"
    by (subst parse.simps) (simp add: dispatch_def perform_def)
  also have "\<dots> = spec_png_walk chunks"
    by (simp add: png_def skip png_loop_refines [OF wf8] rest8)
  finally show ?thesis
    by (simp add: input_def)
qed

section \<open>The claims\<close>

text \<open>
  C1. The claim: an \<open>EndOfStreamError\<close> raised inside the dispatcher makes
  \<open>fileTypeFromTokenizer\<close> return \<open>undefined\<close>. The code: the promise of \<open>parse\<close> is
  returned without \<open>await\<close>, the \<open>catch\<close> clause never runs, and the rejection
  reaches the caller. On the four bytes \<open>OggS\<close> the Ogg walk skips to the end of the
  input and reads 8 bytes there: the detection is rejected with \<open>EndOfStreamError\<close>.
\<close>

theorem endOfStream_escapes:
  "fileTypeFromBuffer parse_files fuel [0x4F, 0x67, 0x67, 0x53] = Rejected EndOfStreamError
   \<and> fileTypeFromTokenizer parse_files fuel (fromBuffer [0x4F, 0x67, 0x67, 0x53])
       = Rejected EndOfStreamError"
  by (simp add: run_defs probe_defs js_index_simps ogg_def tokenizer_simps)

text \<open>
  C2. The claim: the sync-safe decoder ignores bit 7 of each of the four bytes, so its
  result is below \<open>2 ^ 28\<close>. The code masks the last byte only: on \<open>80 00 00 00\<close> it
  returns \<open>2 ^ 28\<close>, where the 28 payload bits are 0.
\<close>

theorem syncSafe_high_bit_kept:
  "uint32SyncSafeToken_get [0x80, 0x00, 0x00, 0x00] 0 = 2 ^ 28
   \<and> syncSafe_payload 0x80 0x00 0x00 0x00 = 0
   \<and> \<not> uint32SyncSafeToken_get [0x80, 0x00, 0x00, 0x00] 0 < 2 ^ 28"
  by (simp add: uint32SyncSafeToken_get_def syncSafe_payload_def js_index_def to_int32_def)

text \<open>
  C3, as stated, fails: a compared position beyond the bytes peeked does not make the
  probe fail. The sample buffer is allocated zero-filled, and the three bytes
  \<open>00 00 01\<close> peeked into it match the four-byte header \<open>00 00 01 00\<close>.
\<close>

theorem check_beyond_peeked_counterexample:
  "peekBuffer (fromBuffer [0x00, 0x00, 0x01]) (alloc minimumBytes) (sample_options 12)
     = Fulfilled (3, [0x00, 0x00, 0x01] @ alloc 4097)
   \<and> underscore_check ([0x00, 0x00, 0x01] @ alloc 4097) [0x00, 0x00, 0x01, 0x00] 0 None"
  by (simp add: peekBuffer_sample minimumBytes_def underscore_check_def js_index_simps)

text \<open>
  C3, amended. \<open>_check\<close> returns true exactly when every index of the header matches
  (\<open>position_matches\<close>: against \<open>mask[i] & buffer[offset + i]\<close> with a mask, against
  \<open>buffer[offset + i]\<close> without, an element outside the buffer being \<open>undefined\<close>). In a
  sample freshly allocated and filled by one peek, a position beyond the bytes peeked
  holds 0: without a mask it matches exactly when the header byte is 0.
\<close>

theorem check_characterisation:
  assumes "wf_tokenizer t" and "0 < m" and "nat m \<le> minimumBytes"
    and "peekBuffer t (alloc minimumBytes) (sample_options m) = Fulfilled (n, sample)"
  shows "underscore_check sample headers off mask_opt
           = (\<forall>i<length headers. position_matches sample headers off mask_opt i)
         \<and> (\<forall>i<length headers. n \<le> int (off + i) \<and> off + i < minimumBytes \<longrightarrow>
               position_matches sample headers off None i = (headers ! i = 0))"
proof -
  have first: "underscore_check sample headers off mask_opt
                 = (\<forall>i<length headers. position_matches sample headers off mask_opt i)"
    unfolding underscore_check_def check_from_iff position_matches_def
    by (cases mask_opt) simp_all
  have n: "n = min (bytesLeft t) m"
    and sample: "sample = take (nat m) (rest t) @ drop (min (length (rest t)) (nat m)) (alloc minimumBytes)"
    using assms(4) peekBuffer_sample [OF assms(1,2), of "alloc minimumBytes"] assms(3)
    by simp_all
  have len: "length (take (nat m) (rest t)) = nat n"
    using length_rest [OF assms(1)] assms(2) by (auto simp: n min_def)
  have "js_index sample p = Some 0" if "n \<le> int p" "p < minimumBytes" for p
  proof -
    have "nat n \<le> p" using that(1) by simp
    moreover have "nat n \<le> minimumBytes"
      using assms(2,3) by (auto simp: n min_def)
    moreover have "min (length (rest t)) (nat m) = nat n"
      using length_rest [OF assms(1)] assms(2) by (auto simp: n min_def)
    ultimately show ?thesis
      using that(2) len
      by (simp add: sample js_index_append_alloc)
  qed
  then have second: "\<forall>i<length headers. n \<le> int (off + i) \<and> off + i < minimumBytes \<longrightarrow>
               position_matches sample headers off None i = (headers ! i = 0)"
    by (auto simp: position_matches_def add.commute)
  from first second show ?thesis by simp
qed

theorem check_characterisation_witness:
  "underscore_check ([0x00, 0x00, 0x01] @ alloc 4097) [0x00, 0x00, 0x01, 0x00] 0 None
     = (\<forall>i<length [0x00, 0x00, 0x01, 0x00 :: byte].
          position_matches ([0x00, 0x00, 0x01] @ alloc 4097) [0x00, 0x00, 0x01, 0x00] 0 None i)
   \<and> position_matches ([0x00, 0x00, 0x01] @ alloc 4097) [0x00, 0x00, 0x01, 0x00] 0 None 3"
proof -
  have wf: "wf_tokenizer (fromBuffer [0x00, 0x00, 0x01])"
    by simp
  have pk: "peekBuffer (fromBuffer [0x00, 0x00, 0x01]) (alloc minimumBytes) (sample_options 12)
              = Fulfilled (3, [0x00, 0x00, 0x01] @ alloc 4097)"
    by (simp add: peekBuffer_sample minimumBytes_def)
  have m: "(0::int) < 12" "nat 12 \<le> minimumBytes"
    by (simp_all add: minimumBytes_def)
  from check_characterisation [OF wf m pk, of "[0x00, 0x00, 0x01, 0x00]" 0 None]
  show ?thesis
    by (simp add: minimumBytes_def)
qed

text \<open>
  C9. \<open>fileTypeFromBuffer\<close> returns \<open>undefined\<close> for an input of at most one byte, the
  empty one included, and hands a longer input to \<open>fileTypeFromTokenizer\<close>.
\<close>

theorem fileTypeFromBuffer_short:
  "(length input \<le> 1 \<longrightarrow> fileTypeFromBuffer parse_files fuel input = Fulfilled None)
   \<and> (2 \<le> length input \<longrightarrow>
        fileTypeFromBuffer parse_files fuel input
          = fileTypeFromTokenizer parse_files fuel (fromBuffer input))"
  by (auto simp: fileTypeFromBuffer_def)

theorem fileTypeFromBuffer_short_witness:
  "fileTypeFromBuffer (\<lambda>header. None) 0 [] = Fulfilled None
   \<and> fileTypeFromBuffer (\<lambda>header. None) 0 [0x42] = Fulfilled None
   \<and> fileTypeFromBuffer (\<lambda>header. None) 0 [0x42, 0x4D]
       = fileTypeFromTokenizer (\<lambda>header. None) 0 (fromBuffer [0x42, 0x4D])"
  using fileTypeFromBuffer_short [of "[]" "\<lambda>header. None" 0]
    fileTypeFromBuffer_short [of "[0x42]" "\<lambda>header. None" 0]
    fileTypeFromBuffer_short [of "[0x42, 0x4D]" "\<lambda>header. None" 0]
  by simp

text \<open>
  C10. \<open>fileTypeFromFile\<close> is rejected with a \<open>TypeError\<close> for every path, before any
  detection: its opener is \<open>undefined\<close>, which is called as a function.
\<close>

theorem fileTypeFromFile_throws:
  "fileTypeFromFile parse_files fuel path = Rejected TypeError"
  by (simp add: fileTypeFromFile_def call_value_def)

text \<open>
  C5. Every result the detection returns is \<open>undefined\<close> or a pair whose \<open>ext\<close> is in
  \<open>supportedExtensions\<close> and whose \<open>mime\<close> is in \<open>supportedMimeTypes\<close>.
\<close>

theorem result_in_catalog:
  assumes "fileTypeFromBuffer parse_files fuel input = Fulfilled result"
  shows "result = None
         \<or> (\<exists>r. result = Some r \<and> ext r \<in> supportedExtensions \<and> mime r \<in> supportedMimeTypes)"
proof (cases result)
  case None
  then show ?thesis by simp
next
  case (Some r)
  have "catalogued_promise (fileTypeFromBuffer parse_files fuel input)"
    using cp_parse [of parse_files fuel "fromBuffer input"]
    by (simp add: fileTypeFromBuffer_def fileTypeFromTokenizer_is_parse)
  with assms Some show ?thesis
    by (simp add: in_catalog_def)
qed

theorem result_in_catalog_witness:
  "fileTypeFromBuffer (\<lambda>header. None) 0 [0x42, 0x4D]
     = Fulfilled (Some (FileType ''bmp'' ''image/bmp''))
   \<and> ''bmp'' \<in> supportedExtensions \<and> ''image/bmp'' \<in> supportedMimeTypes"
proof -
  have run: "fileTypeFromBuffer (\<lambda>header. None) 0 [0x42, 0x4D]
               = Fulfilled (Some (FileType ''bmp'' ''image/bmp''))"
    by (simp add: run_defs probe_defs js_index_simps)
  from result_in_catalog [OF run] show ?thesis
    using run by simp
qed




text \<open>
  C8, as stated, fails. In a header of zero bytes the sum is \<open>8 * 0x20 = 256\<close>, which is
  \<open>400\<close> in base 8. The field \<open>4009zz\<close> is not an octal number, and neither is the field
  \<open>EF BB BF 34 30 30\<close>, whose first three bytes are not ASCII; the probe reports \<open>tar\<close> on
  both: \<open>parseInt\<close> reads the leading digits \<open>400\<close> and ignores what follows, and the field
  is decoded as UTF-8, where \<open>EF BB BF\<close> is the white space U+FEFF.
\<close>

theorem tar_probe_checksum_counterexample:
  "checksum_field (alloc 148 @ [0x34, 0x30, 0x30, 0x39, 0x7A, 0x7A, 0, 0] @ alloc 356) = None
   \<and> signatures_512 (alloc 148 @ [0x34, 0x30, 0x30, 0x39, 0x7A, 0x7A, 0, 0] @ alloc 356)
       = found ''tar'' ''application/x-tar''
   \<and> checksum_field (alloc 148 @ [0xEF, 0xBB, 0xBF, 0x34, 0x30, 0x30, 0, 0] @ alloc 356) = None
   \<and> signatures_512 (alloc 148 @ [0xEF, 0xBB, 0xBF, 0x34, 0x30, 0x30, 0, 0] @ alloc 356)
       = found ''tar'' ''application/x-tar''"
proof -
  define digits :: "byte list" where
    "digits = alloc 148 @ [0x34, 0x30, 0x30, 0x39, 0x7A, 0x7A, 0, 0] @ alloc 356"
  define mark :: "byte list" where
    "mark = alloc 148 @ [0xEF, 0xBB, 0xBF, 0x34, 0x30, 0x30, 0, 0] @ alloc 356"
  have "checksum_field digits = None"
    by (simp add: digits_def checksum_field_def checksum_text_def ascii_space_def)
  moreover have "checksum_expected digits = 256"
    unfolding digits_def by (rule checksum_expected_zero) simp
  moreover have "leading_octal (toString digits Utf8 148 154) = Some 256"
    by (simp add: digits_def toString_def decode_def leading_octal_def js_space_def)
  moreover have "512 \<le> length digits"
    by (simp add: digits_def)
  ultimately have digits: "checksum_field digits = None
      \<and> signatures_512 digits = found ''tar'' ''application/x-tar''"
    by (simp add: tar_probe_lenient)
  have "checksum_field mark = None"
    by (simp add: mark_def checksum_field_def checksum_text_def ascii_space_def)
  moreover have "checksum_expected mark = 256"
    unfolding mark_def by (rule checksum_expected_zero) simp
  moreover have "leading_octal (toString mark Utf8 148 154) = Some 256"
    by (simp add: mark_def toString_def decode_def leading_octal_def js_space_def
        second_ok_def continuation_def)
  moreover have "512 \<le> length mark"
    by (simp add: mark_def)
  ultimately have mark: "checksum_field mark = None
      \<and> signatures_512 mark = found ''tar'' ''application/x-tar''"
    by (simp add: tar_probe_lenient)
  from digits mark show ?thesis
    by (simp only: digits_def mark_def)
qed

text \<open>
  C8, amended. On a sample buffer of at least 512 bytes the TAR probe answers
  \<open>{tar, application/x-tar}\<close> exactly when \<open>tarHeaderChecksumMatches\<close> holds, and that holds
  exactly when the number \<open>parseInt\<close> reads in base 8 from the UTF-8 decoding of bytes 148
  to 154 (\<open>leading_octal\<close>: white space skipped, a sign, then the longest run of octal digits,
  the rest ignored) equals \<open>8 * 0x20\<close> plus the unsigned sum of bytes 0 to 148 and 156
  to 512. When the field is an ASCII octal number (\<open>checksum_field\<close>: ended by the first
  NUL, trimmed, octal digits only) the probe answers \<open>tar\<close> exactly when that number equals
  the sum. A field with no leading octal digit never matches.
\<close>

theorem tar_probe_checksum:
  assumes "512 \<le> length buffer"
  shows "((signatures_512 buffer = found ''tar'' ''application/x-tar'')
            = tarHeaderChecksumMatches buffer 0)
       \<and> ((signatures_512 buffer = found ''tar'' ''application/x-tar'')
            = (leading_octal (toString buffer Utf8 148 154) = Some (checksum_expected buffer)))
       \<and> (\<forall>n. checksum_field buffer = Some n \<longrightarrow>
            (signatures_512 buffer = found ''tar'' ''application/x-tar'')
              = (n = checksum_expected buffer))
       \<and> (leading_octal (toString buffer Utf8 148 154) = None
            \<longrightarrow> signatures_512 buffer \<noteq> found ''tar'' ''application/x-tar'')"
proof -
  have probe: "(signatures_512 buffer = found ''tar'' ''application/x-tar'')
                 = (leading_octal (toString buffer Utf8 148 154) = Some (checksum_expected buffer))"
    using assms by (rule tar_probe_lenient)
  have "(signatures_512 buffer = found ''tar'' ''application/x-tar'')
          = (n = checksum_expected buffer)" if "checksum_field buffer = Some n" for n
    unfolding probe strict_is_lenient [OF that] by simp
  then show ?thesis
    using probe signatures_512_tar [of buffer] by auto
qed

text \<open>A header of zero bytes whose checksum field reads \<open>000400\<close>, then a NUL and a
  space.\<close>

theorem tar_probe_checksum_witness:
  "512 \<le> length (alloc 148 @ [0x30, 0x30, 0x30, 0x34, 0x30, 0x30, 0, 0x20] @ alloc 356)
   \<and> checksum_field (alloc 148 @ [0x30, 0x30, 0x30, 0x34, 0x30, 0x30, 0, 0x20] @ alloc 356)
       = Some 256
   \<and> checksum_expected (alloc 148 @ [0x30, 0x30, 0x30, 0x34, 0x30, 0x30, 0, 0x20] @ alloc 356)
       = 256
   \<and> signatures_512 (alloc 148 @ [0x30, 0x30, 0x30, 0x34, 0x30, 0x30, 0, 0x20] @ alloc 356)
       = found ''tar'' ''application/x-tar''"
proof -
  define header :: "byte list"
    where "header = alloc 148 @ [0x30, 0x30, 0x30, 0x34, 0x30, 0x30, 0, 0x20] @ alloc 356"
  have len: "512 \<le> length header"
    by (simp add: header_def)
  have field: "checksum_field header = Some 256"
    by (simp add: header_def checksum_field_def checksum_text_def ascii_space_def)
  have expected: "checksum_expected header = 256"
    unfolding header_def by (rule checksum_expected_zero) simp
  show ?thesis
    using tar_probe_checksum [OF len] len field expected
    by (simp add: header_def)
qed

text \<open>
  C7, as stated, fails. The probe for \<open>WEBP\<close> at offset 8 comes before the probe for the PNG
  signature. On the PNG signature followed by the bytes \<open>57 45 42 50\<close> and \<open>IDAT\<close> the walk
  would read a chunk of length \<open>0x57454250\<close> and type \<open>IDAT\<close> and answer \<open>png\<close>; the
  detection answers \<open>webp\<close>.
\<close>

theorem png_walk_counterexample:
  "fileTypeFromBuffer (\<lambda>header. None) 0
     ([0x89, 0x50, 0x4E, 0x47, 0x0D, 0x0A, 0x1A, 0x0A]
        @ [0x57, 0x45, 0x42, 0x50, 0x49, 0x44, 0x41, 0x54])
     = Fulfilled (Some (FileType ''webp'' ''image/webp''))
   \<and> spec_png_walk [0x57, 0x45, 0x42, 0x50, 0x49, 0x44, 0x41, 0x54]
       = Fulfilled (Some (FileType ''png'' ''image/png''))"
proof -
  have "fileTypeFromBuffer (\<lambda>header. None) 0
          ([0x89, 0x50, 0x4E, 0x47, 0x0D, 0x0A, 0x1A, 0x0A]
             @ [0x57, 0x45, 0x42, 0x50, 0x49, 0x44, 0x41, 0x54])
          = Fulfilled (Some (FileType ''webp'' ''image/webp''))"
    by (simp add: run_defs probe_defs js_index_simps js_bitand_def)
  moreover have "spec_png_walk [0x57, 0x45, 0x42, 0x50, 0x49, 0x44, 0x41, 0x54]
                   = Fulfilled (Some (FileType ''png'' ''image/png''))"
    by (subst spec_png_walk.simps) (simp add: chunk_length_def chunk_type_def Let_def)
  ultimately show ?thesis
    by (rule conjI)
qed

text \<open>
  C7, amended. For every input that begins with the PNG signature and does not go on with
  \<open>WEBP\<close>, the detection is the walk over the bytes after the signature
  (\<open>spec_png_walk\<close>): a chunk header cut short rejects with the end of the stream, a
  negative length gives nothing, \<open>IDAT\<close> gives \<open>png\<close>, \<open>acTL\<close> gives \<open>apng\<close>, and otherwise
  \<open>length + 4\<close> bytes are skipped and the walk goes on while more than 8 bytes are left,
  ending in \<open>png\<close>.
\<close>

theorem png_walk:
  assumes "take 4 chunks \<noteq> [0x57, 0x45, 0x42, 0x50]"
  shows "fileTypeFromBuffer parse_files fuel
           ([0x89, 0x50, 0x4E, 0x47, 0x0D, 0x0A, 0x1A, 0x0A] @ chunks)
           = spec_png_walk chunks"
  using png_parse [OF assms, of parse_files fuel]
  by (simp add: fileTypeFromBuffer_def fileTypeFromTokenizer_is_parse)

text \<open>An \<open>IHDR\<close> chunk of 13 bytes, then \<open>acTL\<close>: the answer is \<open>apng\<close>.\<close>

theorem png_walk_witness:
  "take 4 ([0x00, 0x00, 0x00, 0x0D, 0x49, 0x48, 0x44, 0x52] @ alloc 17
             @ [0x00, 0x00, 0x00, 0x08, 0x61, 0x63, 0x54, 0x4C, 0x00])
     \<noteq> [0x57, 0x45, 0x42, 0x50]
   \<and> fileTypeFromBuffer (\<lambda>header. None) 0
       ([0x89, 0x50, 0x4E, 0x47, 0x0D, 0x0A, 0x1A, 0x0A]
          @ [0x00, 0x00, 0x00, 0x0D, 0x49, 0x48, 0x44, 0x52] @ alloc 17
          @ [0x00, 0x00, 0x00, 0x08, 0x61, 0x63, 0x54, 0x4C, 0x00])
       = Fulfilled (Some (FileType ''apng'' ''image/apng''))"
proof -
  define chunks :: "byte list" where
    "chunks = [0x00, 0x00, 0x00, 0x0D, 0x49, 0x48, 0x44, 0x52] @ alloc 17
                @ [0x00, 0x00, 0x00, 0x08, 0x61, 0x63, 0x54, 0x4C, 0x00]"
  have start: "take 4 chunks \<noteq> [0x57, 0x45, 0x42, 0x50]"
    by (simp add: chunks_def)
  have next_one: "next_chunk chunks = [0x00, 0x00, 0x00, 0x08, 0x61, 0x63, 0x54, 0x4C, 0x00]"
    by (simp add: chunks_def next_chunk_def chunk_length_def Let_def)
  have "spec_png_walk chunks = spec_png_walk (next_chunk chunks)"
    by (subst spec_png_walk.simps)
       (simp add: next_one, simp add: chunks_def chunk_length_def chunk_type_def Let_def)
  also have "\<dots> = Fulfilled (Some (FileType ''apng'' ''image/apng''))"
    unfolding next_one
    by (subst spec_png_walk.simps) (simp add: chunk_length_def chunk_type_def Let_def)
  finally show ?thesis
    using png_walk [OF start, of "\<lambda>header. None" 0] start
    by (simp add: chunks_def)
qed

end
